theory Spec2Isabelle
  imports Main
begin

section \<open>Payment-to-identity binding engine of the marathon access bot\<close>

text \<open>
  The development embeds the database schema of \<^verbatim>\<open>app/db/models.py\<close>, the webhook
  adapter of \<^verbatim>\<open>app/webhooks.py\<close>, the self-service handler of \<^verbatim>\<open>app/main.py\<close>, the
  join-request handler of \<^verbatim>\<open>app/handlers/join_requests.py\<close> and the administrative
  operations of \<^verbatim>\<open>app/handlers/admin.py\<close>.

  Conventions of the embedding.
  \<^item> A Python \<^verbatim>\<open>str\<close> is a \<^typ>\<open>string\<close> holding its UTF-8 bytes. The Unicode-aware
    builtins \<^verbatim>\<open>str.isdigit\<close>, \<^verbatim>\<open>str.strip\<close> and \<^verbatim>\<open>str.lower\<close> are modelled on
    their ASCII range, which is the range every statement below is evaluated on.
  \<^item> A nullable column is an \<^typ>\<open>'a option\<close>; \<^verbatim>\<open>DateTime\<close> values are integers
    (points on a time line), of which only the order matters.
  \<^item> A table is the list of its rows in insertion order; a session that reaches
    \<^verbatim>\<open>db.commit()\<close> returns the updated tables, one that returns earlier returns
    the tables as they were.
  \<^item> Calls to the chat transport are parameters that say whether the call completed
    (\<open>True\<close>) or raised (\<open>False\<close>).
\<close>

subsection \<open>Schema (app/db/models.py)\<close>

record payment =
  pay_id :: nat
  order_id :: string
  email :: "string option"
  phone :: "string option"
  status :: string
  product_name :: "string option"
  created_at :: int
  used :: bool

record user =
  user_id :: nat
  telegram_id :: string
  username :: "string option"
  full_name :: "string option"
  payment_id :: "nat option"

record access_log =
  log_id :: nat
  log_telegram_id :: string
  log_email :: "string option"
  log_order_id :: string
  log_group_name :: string
  log_group_id :: string
  log_action :: string
  log_timestamp :: int
  log_comment :: string

record current_group =
  group_pk :: nat
  chat_id :: "string option"
  group_name :: string
  invite_link :: string

record db =
  payments :: "payment list"
  users :: "user list"
  access_logs :: "access_log list"
  groups :: "current_group list"

definition empty_db :: db where
  "empty_db = \<lparr>payments = [], users = [], access_logs = [], groups = []\<rparr>"

text \<open>An autoincrement primary key: one more than every key of the table.\<close>

definition next_id :: "nat list \<Rightarrow> nat" where
  "next_id ks = Suc (fold max ks 0)"

subsection \<open>Python builtins on strings\<close>

definition isdigit :: "char \<Rightarrow> bool" where
  "isdigit c \<longleftrightarrow> c \<in> set ''0123456789''"

definition isspace :: "char \<Rightarrow> bool" where
  "isspace c \<longleftrightarrow> c \<in> set [CHR 0x09, CHR 0x0A, CHR 0x0B, CHR 0x0C, CHR 0x0D,
                         CHR 0x1C, CHR 0x1D, CHR 0x1E, CHR 0x1F, CHR 0x20]"

definition strip :: "string \<Rightarrow> string" where
  "strip s = rev (dropWhile isspace (rev (dropWhile isspace s)))"

definition lower_char :: "char \<Rightarrow> char" where
  "lower_char c =
     (case map_of (zip ''ABCDEFGHIJKLMNOPQRSTUVWXYZ'' ''abcdefghijklmnopqrstuvwxyz'') c of
        None \<Rightarrow> c
      | Some l \<Rightarrow> l)"

definition lower :: "string \<Rightarrow> string" where
  "lower s = map lower_char s"

text \<open>Truthiness of an \<^verbatim>\<open>Optional[str]\<close>: \<^verbatim>\<open>None\<close> and the empty string are false.\<close>

definition truthy :: "string option \<Rightarrow> bool" where
  "truthy v = (case v of None \<Rightarrow> False | Some s \<Rightarrow> s \<noteq> [])"

text \<open>\<^verbatim>\<open>s.endswith(t)\<close>; also what \<^verbatim>\<open>Payment.phone.endswith(t)\<close> selects for a \<open>t\<close> of digits.\<close>

definition endswith :: "string \<Rightarrow> string \<Rightarrow> bool" where
  "endswith s t \<longleftrightarrow> length t \<le> length s \<and> drop (length s - length t) s = t"

subsection \<open>Phone variants (app/main.py, app/handlers/admin.py)\<close>

definition normalize_phone :: "string \<Rightarrow> string" where
  "normalize_phone v = filter isdigit v"

definition phone_variants :: "string \<Rightarrow> string option \<times> string option" where
  "phone_variants v =
     (let digits = normalize_phone v in
      if digits = [] then (None, None)
      else (Some digits,
            Some (if 10 \<le> length digits then drop (length digits - 10) digits else digits)))"

subsection \<open>Matching resolver\<close>

text \<open>
  The column expressions the handlers hand to \<^verbatim>\<open>or_(*filters)\<close>. A comparison with a
  \<^verbatim>\<open>NULL\<close> column selects nothing.
\<close>

datatype criterion =
    EmailEq string
  | OrderIdEq string
  | PhoneEq string
  | PhoneEndswith string

fun holds :: "criterion \<Rightarrow> payment \<Rightarrow> bool" where
  "holds (EmailEq t) p = (email p = Some t)"
| "holds (OrderIdEq t) p = (order_id p = t)"
| "holds (PhoneEq t) p = (phone p = Some t)"
| "holds (PhoneEndswith t) p = (case phone p of None \<Rightarrow> False | Some ph \<Rightarrow> endswith ph t)"

definition or_filters :: "criterion list \<Rightarrow> payment \<Rightarrow> bool" where
  "or_filters fs p = list_ex (\<lambda>c. holds c p) fs"

text \<open>
  The two filters every branch appends after the first ones:
  \<^verbatim>\<open>if phone: filters.append(Payment.phone == phone)\<close> and
  \<^verbatim>\<open>if phone_last10 and len(phone_last10) >= 10: filters.append(Payment.phone.endswith(phone_last10))\<close>.
\<close>

definition phone_filters :: "string \<Rightarrow> criterion list" where
  "phone_filters t =
     (case phone_variants t of (ph, last10) \<Rightarrow>
        (if truthy ph then [PhoneEq (the ph)] else []) @
        (if truthy last10 \<and> 10 \<le> length (the last10) then [PhoneEndswith (the last10)] else []))"

text \<open>
  Self-service mode (\<^verbatim>\<open>handle_email_or_order\<close>): the branch on \<^verbatim>\<open>"@" in text\<close> filters on
  the email column alone; the other branch builds the list
  \<^verbatim>\<open>[Payment.order_id == text]\<close> plus the phone filters.
\<close>

definition claim_filters :: "string \<Rightarrow> criterion list" where
  "claim_filters t =
     (if CHR ''@'' \<in> set t then [EmailEq t] else OrderIdEq t # phone_filters t)"

text \<open>
  Administrative mode (\<^verbatim>\<open>send_payment_info\<close>, \<^verbatim>\<open>rebind_payment_to_user\<close>,
  \<^verbatim>\<open>admin_remove_user\<close>, \<^verbatim>\<open>admin_unban_user\<close> build the same list):
  \<^verbatim>\<open>[Payment.email == query, Payment.order_id == query]\<close> plus the phone filters.
\<close>

definition admin_filters :: "string \<Rightarrow> criterion list" where
  "admin_filters q = EmailEq q # OrderIdEq q # phone_filters q"

text \<open>
  \<^verbatim>\<open>.order_by(...).first()\<close>: the row no other row precedes, \<^verbatim>\<open>None\<close> on an empty
  selection. \<open>precedes p q\<close> says that \<open>p\<close> sorts strictly before \<open>q\<close>.
\<close>

fun first_by :: "('a \<Rightarrow> 'a \<Rightarrow> bool) \<Rightarrow> 'a list \<Rightarrow> 'a option" where
  "first_by precedes [] = None"
| "first_by precedes (p # ps) =
     (case first_by precedes ps of
        None \<Rightarrow> Some p
      | Some q \<Rightarrow> if precedes q p then Some q else Some p)"

text \<open>\<^verbatim>\<open>order_by(Payment.created_at.desc(), Payment.id.desc())\<close>\<close>

definition created_desc_id_desc :: "payment \<Rightarrow> payment \<Rightarrow> bool" where
  "created_desc_id_desc p q \<longleftrightarrow>
     created_at q < created_at p \<or> (created_at p = created_at q \<and> pay_id q < pay_id p)"

text \<open>\<^verbatim>\<open>order_by(Payment.id.desc())\<close>\<close>

definition id_desc :: "payment \<Rightarrow> payment \<Rightarrow> bool" where
  "id_desc p q \<longleftrightarrow> pay_id q < pay_id p"

text \<open>
  The primary query of the self-service handler: paid, unused, matching. The branch on
  \<^verbatim>\<open>@\<close> passes the three conditions to one \<^verbatim>\<open>filter\<close>, the other branch to two; both
  select the conjunction.
\<close>

definition claim_query :: "payment list \<Rightarrow> string \<Rightarrow> payment option" where
  "claim_query ps t =
     first_by created_desc_id_desc
       (filter (\<lambda>p. status p = ''paid'' \<and> used p = False \<and> or_filters (claim_filters t) p) ps)"

text \<open>The probe behind the "already used" message: paid, matching, used or not.\<close>

definition used_query :: "payment list \<Rightarrow> string \<Rightarrow> payment option" where
  "used_query ps t =
     first_by created_desc_id_desc
       (filter (\<lambda>p. status p = ''paid'' \<and> or_filters (claim_filters t) p) ps)"

text \<open>The lookup of the administrative operations: any status, used or not.\<close>

definition admin_query :: "payment list \<Rightarrow> string \<Rightarrow> payment option" where
  "admin_query ps q = first_by id_desc (filter (or_filters (admin_filters q)) ps)"

subsection \<open>Webhook ingestion (app/webhooks.py)\<close>

text \<open>
  The module's private functions keep their names without the leading underscore
  (\<^verbatim>\<open>_get_first\<close> is \<open>get_first\<close>); its \<^verbatim>\<open>_normalize_phone\<close> is
  \<open>webhook_normalize_phone\<close>, the name \<open>normalize_phone\<close> being taken by the handlers'.

  The decoded body: \<open>None\<close> for a key that is absent, \<open>Some None\<close> for a key whose
  value is \<^verbatim>\<open>None\<close> (a JSON \<^verbatim>\<open>null\<close>), \<open>Some (Some v)\<close> for any other value, \<open>v\<close>
  being what \<^verbatim>\<open>str(value)\<close> returns.
\<close>

type_synonym payload = "string \<Rightarrow> string option option"

fun get_first :: "payload \<Rightarrow> string list \<Rightarrow> string option" where
  "get_first pl [] = None"
| "get_first pl (k # ks) =
     (case pl k of
        None \<Rightarrow> get_first pl ks
      | Some None \<Rightarrow> get_first pl ks
      | Some (Some v) \<Rightarrow> if strip v \<noteq> [] then Some (strip v) else get_first pl ks)"

text \<open>
  \<^verbatim>\<open>datetime.strptime\<close> and \<^verbatim>\<open>datetime.utcnow()\<close> belong to the standard library and the
  clock: \<open>strptime v fmt\<close> is \<open>None\<close> where the library raises \<^verbatim>\<open>ValueError\<close>.
\<close>

definition parse_timestamp ::
  "(string \<Rightarrow> string \<Rightarrow> int option) \<Rightarrow> int \<Rightarrow> string option \<Rightarrow> int" where
  "parse_timestamp strptime utcnow v =
     (if \<not> truthy v then utcnow
      else case strptime (the v) ''%Y-%m-%d %H:%M:%S'' of
             Some t \<Rightarrow> t
           | None \<Rightarrow>
               (case strptime (the v) ''%Y-%m-%dT%H:%M:%S'' of
                  Some t \<Rightarrow> t
                | None \<Rightarrow> utcnow))"

definition status_mapping :: "(string \<times> string) list" where
  "status_mapping =
     [(''success'', ''paid''),
      (''succeeded'', ''paid''),
      (''paid'', ''paid''),
      (''completed'', ''paid''),
      (''cancelled'', ''cancelled''),
      (''canceled'', ''cancelled''),
      (''failed'', ''failed''),
      (''pending'', ''pending'')]"

definition normalize_status :: "string option \<Rightarrow> string" where
  "normalize_status v =
     (if \<not> truthy v then ''paid''
      else let normalized = lower (strip (the v)) in
           case map_of status_mapping normalized of
             None \<Rightarrow> normalized
           | Some s \<Rightarrow> s)"

text \<open>\<^verbatim>\<open>_normalize_phone\<close> of the webhook module: \<^verbatim>\<open>None\<close> when no digit is left.\<close>

definition webhook_normalize_phone :: "string option \<Rightarrow> string option" where
  "webhook_normalize_phone v =
     (if \<not> truthy v then None
      else let digits = filter isdigit (the v) in
           if digits = [] then None else Some digits)"

record request =
  header_token :: string
  query_token :: string
  path_token :: string
  body :: payload

text \<open>
  \<^verbatim>\<open>header_token\<close>, \<^verbatim>\<open>query_token\<close> and \<^verbatim>\<open>path_token\<close> hold what the three
  \<^verbatim>\<open>.get(..., "")\<close> calls return. The configured \<^verbatim>\<open>WEBHOOK_TOKEN\<close> is a parameter.
\<close>

definition is_authorized :: "string \<Rightarrow> request \<Rightarrow> bool" where
  "is_authorized webhook_token req =
     (if webhook_token = [] then True
      else let body_token =
                 strip (case body req ''token'' of
                          None \<Rightarrow> []
                        | Some None \<Rightarrow> ''None''
                        | Some (Some v) \<Rightarrow> v)
           in webhook_token \<in> set [header_token req, query_token req, body_token, path_token req])"

datatype response = Ok200 | BadRequest400 | Unauthorized401

text \<open>The fields \<^verbatim>\<open>handle_prodamus\<close> reads from the payload.\<close>

definition in_order_id :: "payload \<Rightarrow> string option" where
  "in_order_id pl = get_first pl [''order_id'', ''orderId'', ''order'', ''payment_id'']"

definition in_email :: "payload \<Rightarrow> string option" where
  "in_email pl = get_first pl [''email'', ''customer_email'', ''client_email'', ''buyer_email'']"

definition in_phone :: "payload \<Rightarrow> string option" where
  "in_phone pl =
     webhook_normalize_phone
       (get_first pl [''phone'', ''phone_number'', ''customer_phone'', ''client_phone'',
                      ''buyer_phone'', ''telephone'', ''tel''])"

definition in_status :: "payload \<Rightarrow> string" where
  "in_status pl = normalize_status (get_first pl [''status'', ''payment_status'', ''paymentStatus''])"

definition in_product_name :: "payload \<Rightarrow> string option" where
  "in_product_name pl = get_first pl [''product_name'', ''product'', ''title'', ''name'']"

definition in_created_at :: "(string \<Rightarrow> string \<Rightarrow> int option) \<Rightarrow> int \<Rightarrow> payload \<Rightarrow> int" where
  "in_created_at strptime utcnow pl =
     parse_timestamp strptime utcnow (get_first pl [''created_at'', ''createdAt'', ''date'', ''created''])"

text \<open>An attribute assignment on a loaded row, flushed as an update of the row with its key.\<close>

definition update_payment :: "nat \<Rightarrow> (payment \<Rightarrow> payment) \<Rightarrow> payment list \<Rightarrow> payment list" where
  "update_payment k f ps = map (\<lambda>q. if pay_id q = k then f q else q) ps"

text \<open>The \<^verbatim>\<open>else\<close> branch of the upsert: the assignments to the row found.\<close>

definition overlay :: "string option \<Rightarrow> string option \<Rightarrow> string \<Rightarrow> string option \<Rightarrow> int \<Rightarrow> payment \<Rightarrow> payment" where
  "overlay em ph st pn cr p =
     p\<lparr>email := (if truthy em then em else email p),
       phone := (if truthy ph then ph else phone p),
       status := st,
       product_name := (if truthy pn then pn else product_name p),
       created_at := cr\<rparr>"

definition handle_prodamus ::
  "string \<Rightarrow> (string \<Rightarrow> string \<Rightarrow> int option) \<Rightarrow> int \<Rightarrow> db \<Rightarrow> request \<Rightarrow> db \<times> response" where
  "handle_prodamus webhook_token strptime utcnow s req =
     (let pl = body req in
      if \<not> is_authorized webhook_token req then (s, Unauthorized401)
      else if \<not> truthy (in_order_id pl) \<or> (\<not> truthy (in_email pl) \<and> \<not> truthy (in_phone pl))
      then (s, BadRequest400)
      else
        let oid = the (in_order_id pl);
            st = in_status pl;
            cr = in_created_at strptime utcnow pl
        in case find (\<lambda>p. order_id p = oid) (payments s) of
             None \<Rightarrow>
               (s\<lparr>payments := payments s @
                     [\<lparr>pay_id = next_id (map pay_id (payments s)),
                       order_id = oid,
                       email = in_email pl,
                       phone = in_phone pl,
                       status = st,
                       product_name = in_product_name pl,
                       created_at = cr,
                       used = False\<rparr>]\<rparr>,
                Ok200)
           | Some p \<Rightarrow>
               (s\<lparr>payments :=
                     update_payment (pay_id p)
                       (overlay (in_email pl) (in_phone pl) st (in_product_name pl) cr)
                       (payments s)\<rparr>,
                Ok200))"

text \<open>\<^verbatim>\<open>handle_tilda\<close> returns what \<^verbatim>\<open>handle_prodamus\<close> returns.\<close>

definition handle_tilda ::
  "string \<Rightarrow> (string \<Rightarrow> string \<Rightarrow> int option) \<Rightarrow> int \<Rightarrow> db \<Rightarrow> request \<Rightarrow> db \<times> response" where
  "handle_tilda = handle_prodamus"

subsection \<open>Messages and events of the chat transport\<close>

text \<open>\<^verbatim>\<open>str(n)\<close> for an integer: the decimal digits, with a sign when negative.\<close>

fun str_nat :: "nat \<Rightarrow> string" where
  "str_nat n =
     (if n < 10 then [''0123456789'' ! n]
      else str_nat (n div 10) @ [''0123456789'' ! (n mod 10)])"

declare str_nat.simps [simp del]

definition str_int :: "int \<Rightarrow> string" where
  "str_int i = (if i < 0 then CHR ''-'' # str_nat (nat (- i)) else str_nat (nat i))"

text \<open>\<^verbatim>\<open>s.isdigit()\<close>: at least one character, and digits only.\<close>

definition str_isdigit :: "string \<Rightarrow> bool" where
  "str_isdigit s \<longleftrightarrow> s \<noteq> [] \<and> list_all isdigit s"

record tg_user =
  tg_id :: int
  tg_username :: "string option"
  tg_full_name :: string

record message =
  from_user :: "tg_user option"
  msg_text :: "string option"

record join_event =
  ev_user_id :: int
  ev_chat_id :: int
  ev_chat_title :: "string option"

text \<open>The button labels, as UTF-8: the Russian for "check payment", "support", "cancel".\<close>

definition BUTTON_CHECK_PAYMENT :: string where
  "BUTTON_CHECK_PAYMENT =
     map char_of [208, 159, 209, 128, 208, 190, 208, 178, 208, 181, 209, 128, 208, 184, 209, 130,
                  209, 140, 32, 208, 190, 208, 191, 208, 187, 208, 176, 209, 130, 209, 131 :: nat]"

definition BUTTON_SUPPORT :: string where
  "BUTTON_SUPPORT =
     map char_of [208, 159, 208, 190, 208, 180, 208, 180, 208, 181, 209, 128, 208, 182, 208, 186,
                  208, 176 :: nat]"

definition ADMIN_CANCEL :: string where
  "ADMIN_CANCEL = map char_of [208, 158, 209, 130, 208, 188, 208, 181, 208, 189, 208, 176 :: nat]"

text \<open>What a handler answers; the Russian wording of each message is left out.\<close>

datatype reply =
    NoReply
  | AskIdentifier
  | AlreadyUsed
  | NotFound
  | OtherAccount
  | ConfirmedNoGroup
  | Invite string string
  | AdminMenu
  | PaymentNotFound
  | PaymentInfo payment "user option" "access_log list"
  | Rebound string string
  | UserNotBound
  | CannotRemoveSelf
  | NoChatId
  | RemoveFailed
  | Removed
  | UnbanFailed
  | Unbanned

text \<open>\<^verbatim>\<open>db.query(CurrentGroup).order_by(CurrentGroup.id.desc()).first()\<close>\<close>

definition latest_group :: "current_group list \<Rightarrow> current_group option" where
  "latest_group gs = first_by (\<lambda>g h. group_pk h < group_pk g) gs"

definition update_user :: "nat \<Rightarrow> (user \<Rightarrow> user) \<Rightarrow> user list \<Rightarrow> user list" where
  "update_user k f us = map (\<lambda>u. if user_id u = k then f u else u) us"

definition update_group :: "nat \<Rightarrow> (current_group \<Rightarrow> current_group) \<Rightarrow> current_group list \<Rightarrow> current_group list" where
  "update_group k f gs = map (\<lambda>g. if group_pk g = k then f g else g) gs"

subsection \<open>Self-service claim (app/main.py, handle_email_or_order)\<close>

text \<open>
  The handler, from its first line. Both \<^verbatim>\<open>db.commit()\<close> calls follow the same
  assignments, so the tables are updated once and the reply is chosen after.
\<close>

definition handle_email_or_order :: "db \<Rightarrow> message \<Rightarrow> db \<times> reply" where
  "handle_email_or_order s m =
     (case (from_user m, msg_text m) of
        (None, _) \<Rightarrow> (s, NoReply)
      | (Some _, None) \<Rightarrow> (s, NoReply)
      | (Some sender, Some raw) \<Rightarrow>
          if raw = [] then (s, NoReply)
          else
          let t = strip raw in
          if t \<in> set [BUTTON_CHECK_PAYMENT, BUTTON_SUPPORT] then (s, NoReply)
          else if t = [] then (s, AskIdentifier)
          else
            (case claim_query (payments s) t of
               None \<Rightarrow>
                 (case used_query (payments s) t of
                    Some _ \<Rightarrow> (s, AlreadyUsed)
                  | None \<Rightarrow> (s, NotFound))
             | Some payment \<Rightarrow>
                 let me = str_int (tg_id sender);
                     existing_user = find (\<lambda>u. payment_id u = Some (pay_id payment)) (users s)
                 in
                 if (case existing_user of None \<Rightarrow> False | Some e \<Rightarrow> telegram_id e \<noteq> me)
                 then (s, OtherAccount)
                 else
                   let users' =
                         (case find (\<lambda>u. telegram_id u = me) (users s) of
                            None \<Rightarrow>
                              users s @
                                [\<lparr>user_id = next_id (map user_id (users s)),
                                  telegram_id = me,
                                  username = tg_username sender,
                                  full_name = Some (tg_full_name sender),
                                  payment_id = Some (pay_id payment)\<rparr>]
                          | Some u \<Rightarrow>
                              update_user (user_id u)
                                (\<lambda>u. u\<lparr>payment_id := Some (pay_id payment)\<rparr>) (users s));
                       s' = s\<lparr>users := users',
                              payments := update_payment (pay_id payment)
                                            (\<lambda>p. p\<lparr>used := True\<rparr>) (payments s)\<rparr>
                   in
                   (case latest_group (groups s) of
                      None \<Rightarrow> (s', ConfirmedNoGroup)
                    | Some g \<Rightarrow> (s', Invite (invite_link g) (group_name g)))))"

subsection \<open>Join-request confirmation (app/handlers/join_requests.py)\<close>

datatype join_outcome = Ignored | Approved | ApproveRaised

text \<open>
  \<^verbatim>\<open>str(event.chat.title)\<close>; a chat without title gives the text \<^verbatim>\<open>None\<close>.
\<close>

definition str_title :: "string option \<Rightarrow> string" where
  "str_title v = (case v of None \<Rightarrow> ''None'' | Some x \<Rightarrow> x)"

text \<open>
  From \<^verbatim>\<open>log = AccessLog(...)\<close> to the end of the handler: the row is added, the payment
  marked, the session committed, and only then \<^verbatim>\<open>await event.approve()\<close> runs.
  \<open>approve_ok\<close> says whether that call completes; the tables are the committed ones
  either way.
\<close>

definition grant :: "int \<Rightarrow> bool \<Rightarrow> db \<Rightarrow> join_event \<Rightarrow> payment \<Rightarrow> db \<times> join_outcome" where
  "grant utcnow approve_ok s ev payment =
     (s\<lparr>access_logs := access_logs s @
          [\<lparr>log_id = next_id (map log_id (access_logs s)),
            log_telegram_id = str_int (ev_user_id ev),
            log_email = email payment,
            log_order_id = order_id payment,
            log_group_name = str_title (ev_chat_title ev),
            log_group_id = str_int (ev_chat_id ev),
            log_action = ''granted'',
            log_timestamp = utcnow,
            log_comment = ''Auto-approved join request''\<rparr>],
        payments := update_payment (pay_id payment) (\<lambda>p. p\<lparr>used := True\<rparr>) (payments s)\<rparr>,
      if approve_ok then Approved else ApproveRaised)"

text \<open>
  \<^verbatim>\<open>not user.payment_id\<close> holds for \<^verbatim>\<open>None\<close> and for \<open>0\<close>; \<^verbatim>\<open>user.payment\<close> is the
  payment row with that key.
\<close>

definition approve_join_request :: "int \<Rightarrow> bool \<Rightarrow> db \<Rightarrow> join_event \<Rightarrow> db \<times> join_outcome" where
  "approve_join_request utcnow approve_ok s ev =
     (case find (\<lambda>u. telegram_id u = str_int (ev_user_id ev)) (users s) of
        None \<Rightarrow> (s, Ignored)
      | Some u \<Rightarrow>
          (case payment_id u of
             None \<Rightarrow> (s, Ignored)
           | Some k \<Rightarrow>
               if k = 0 then (s, Ignored)
               else
                 (case find (\<lambda>p. pay_id p = k) (payments s) of
                    None \<Rightarrow> (s, Ignored)
                  | Some payment \<Rightarrow>
                      if status payment \<noteq> ''paid'' then (s, Ignored)
                      else
                        (case latest_group (groups s) of
                           None \<Rightarrow> grant utcnow approve_ok s ev payment
                         | Some g \<Rightarrow>
                             if truthy (chat_id g) \<and> chat_id g \<noteq> Some (str_int (ev_chat_id ev))
                             then (s, Ignored)
                             else if \<not> truthy (chat_id g)
                             then grant utcnow approve_ok
                                    (s\<lparr>groups := update_group (group_pk g)
                                         (\<lambda>g. g\<lparr>chat_id := Some (str_int (ev_chat_id ev))\<rparr>)
                                         (groups s)\<rparr>)
                                    ev payment
                             else grant utcnow approve_ok s ev payment))))"

subsection \<open>Administrative operations (app/handlers/admin.py)\<close>

definition is_admin :: "int list \<Rightarrow> message \<Rightarrow> bool" where
  "is_admin admin_ids m = (case from_user m of None \<Rightarrow> False | Some a \<Rightarrow> tg_id a \<in> set admin_ids)"

text \<open>
  \<^verbatim>\<open>payment.user\<close>: the relationship declared with \<^verbatim>\<open>uselist=False\<close>, the user row
  whose \<^verbatim>\<open>payment_id\<close> is the payment's key.
\<close>

definition payment_user :: "user list \<Rightarrow> payment \<Rightarrow> user option" where
  "payment_user us p = find (\<lambda>u. payment_id u = Some (pay_id p)) us"

text \<open>
  \<^verbatim>\<open>send_payment_info\<close>: the lookup, then the report of the payment, of the user bound to
  it and of the five latest audit rows that carry the payment's email or order id.
\<close>

definition send_payment_info :: "db \<Rightarrow> string \<Rightarrow> db \<times> reply" where
  "send_payment_info s q =
     (case admin_query (payments s) q of
        None \<Rightarrow> (s, PaymentNotFound)
      | Some payment \<Rightarrow>
          (s, PaymentInfo payment (payment_user (users s) payment)
                (take 5 (rev (sort_key log_timestamp
                   (filter (\<lambda>l. log_email l = email payment \<or> log_order_id l = order_id payment)
                      (access_logs s)))))))"

text \<open>
  \<^verbatim>\<open>rebind_payment_to_user\<close>. A user created here is pending until the commit and has
  no key yet, so \<^verbatim>\<open>new_user.id\<close> is \<^verbatim>\<open>None\<close> in the comparison with \<^verbatim>\<open>old_user.id\<close>
  (the session is made with \<^verbatim>\<open>autoflush=False\<close>).
\<close>

definition rebind_payment_to_user :: "db \<Rightarrow> string \<Rightarrow> string \<Rightarrow> db \<times> reply" where
  "rebind_payment_to_user s payment_key tg =
     (case admin_query (payments s) payment_key of
        None \<Rightarrow> (s, PaymentNotFound)
      | Some payment \<Rightarrow>
          let new_user = find (\<lambda>u. telegram_id u = tg) (users s);
              new_user_id = map_option user_id new_user;
              old_user = find (\<lambda>u. payment_id u = Some (pay_id payment)) (users s);
              users1 =
                (case old_user of
                   None \<Rightarrow> users s
                 | Some old \<Rightarrow>
                     if Some (user_id old) \<noteq> new_user_id
                     then update_user (user_id old) (\<lambda>u. u\<lparr>payment_id := None\<rparr>) (users s)
                     else users s);
              users2 =
                (case new_user of
                   None \<Rightarrow>
                     users1 @
                       [\<lparr>user_id = next_id (map user_id (users s)),
                         telegram_id = tg,
                         username = None,
                         full_name = None,
                         payment_id = Some (pay_id payment)\<rparr>]
                 | Some n \<Rightarrow>
                     update_user (user_id n) (\<lambda>u. u\<lparr>payment_id := Some (pay_id payment)\<rparr>) users1)
          in (s\<lparr>users := users2,
                payments := update_payment (pay_id payment) (\<lambda>p. p\<lparr>used := True\<rparr>) (payments s)\<rparr>,
              Rebound (order_id payment) tg))"

text \<open>
  The \<^verbatim>\<open>AccessLog\<close> row of \<^verbatim>\<open>admin_remove_user\<close> and \<^verbatim>\<open>admin_unban_user\<close>, which differ
  in the action and the comment.
\<close>

definition admin_log :: "int \<Rightarrow> db \<Rightarrow> user \<Rightarrow> payment \<Rightarrow> current_group \<Rightarrow> string \<Rightarrow> string \<Rightarrow> access_log" where
  "admin_log utcnow s u p g act note =
     \<lparr>log_id = next_id (map log_id (access_logs s)),
      log_telegram_id = telegram_id u,
      log_email = Some (if truthy (email p) then the (email p) else ''unknown''),
      log_order_id = (if order_id p \<noteq> [] then order_id p else ''unknown''),
      log_group_name = group_name g,
      log_group_id = the (chat_id g),
      log_action = act,
      log_timestamp = utcnow,
      log_comment = note\<rparr>"

text \<open>
  \<^verbatim>\<open>admin_remove_user\<close>. \<open>ban_ok\<close> says whether the \<^verbatim>\<open>try\<close> block around
  \<^verbatim>\<open>message.bot.ban_chat_member(...)\<close> completes; \<open>False\<close> is the \<^verbatim>\<open>except Exception\<close>
  branch.
\<close>

definition admin_remove_user :: "int list \<Rightarrow> int \<Rightarrow> bool \<Rightarrow> db \<Rightarrow> message \<Rightarrow> db \<times> reply" where
  "admin_remove_user admin_ids utcnow ban_ok s m =
     (if \<not> is_admin admin_ids m \<or> \<not> truthy (msg_text m) then (s, NoReply)
      else
        let t = strip (the (msg_text m)) in
        if t = ADMIN_CANCEL then (s, AdminMenu)
        else
          (case admin_query (payments s) t of
             None \<Rightarrow> (s, PaymentNotFound)
           | Some payment \<Rightarrow>
               (case payment_user (users s) payment of
                  None \<Rightarrow> (s, UserNotBound)
                | Some u \<Rightarrow>
                    if telegram_id u = [] \<or> \<not> str_isdigit (telegram_id u) then (s, UserNotBound)
                    else if (case from_user m of
                               None \<Rightarrow> False
                             | Some a \<Rightarrow> str_int (tg_id a) = telegram_id u)
                    then (s, CannotRemoveSelf)
                    else
                      (case latest_group (groups s) of
                         None \<Rightarrow> (s, NoChatId)
                       | Some g \<Rightarrow>
                           if \<not> truthy (chat_id g) then (s, NoChatId)
                           else if \<not> ban_ok then (s, RemoveFailed)
                           else
                             (s\<lparr>access_logs := access_logs s @
                                  [admin_log utcnow s u payment g ''revoked'' ''Removed by admin'']\<rparr>,
                              Removed)))))"

text \<open>
  \<^verbatim>\<open>admin_unban_user\<close>. \<open>unban_ok\<close> says whether the \<^verbatim>\<open>try\<close> block around
  \<^verbatim>\<open>message.bot.unban_chat_member(...)\<close> completes.
\<close>

definition admin_unban_user :: "int list \<Rightarrow> int \<Rightarrow> bool \<Rightarrow> db \<Rightarrow> message \<Rightarrow> db \<times> reply" where
  "admin_unban_user admin_ids utcnow unban_ok s m =
     (if \<not> is_admin admin_ids m \<or> \<not> truthy (msg_text m) then (s, NoReply)
      else
        let t = strip (the (msg_text m)) in
        if t = ADMIN_CANCEL then (s, AdminMenu)
        else
          (case admin_query (payments s) t of
             None \<Rightarrow> (s, PaymentNotFound)
           | Some payment \<Rightarrow>
               (case payment_user (users s) payment of
                  None \<Rightarrow> (s, UserNotBound)
                | Some u \<Rightarrow>
                    if telegram_id u = [] \<or> \<not> str_isdigit (telegram_id u) then (s, UserNotBound)
                    else
                      (case latest_group (groups s) of
                         None \<Rightarrow> (s, NoChatId)
                       | Some g \<Rightarrow>
                           if \<not> truthy (chat_id g) then (s, NoChatId)
                           else if \<not> unban_ok then (s, UnbanFailed)
                           else
                             (s\<lparr>access_logs := access_logs s @
                                  [admin_log utcnow s u payment g ''unbanned'' ''Unbanned by admin'']\<rparr>,
                              Unbanned)))))"

subsection \<open>Constraints and the binding invariant\<close>

text \<open>
  What the schema guarantees for the user table: the primary key and the unique
  constraint \<^verbatim>\<open>uq_users_telegram_id\<close>.
\<close>

definition schema_ok :: "db \<Rightarrow> bool" where
  "schema_ok s \<longleftrightarrow> distinct (map user_id (users s)) \<and> distinct (map telegram_id (users s))"

text \<open>
  The payment references held by the user rows, in table order, and the invariant of
  the binding engine: no payment is referenced twice.
\<close>

fun bound_payments :: "user list \<Rightarrow> nat list" where
  "bound_payments [] = []"
| "bound_payments (u # us) =
     (case payment_id u of None \<Rightarrow> bound_payments us | Some k \<Rightarrow> k # bound_payments us)"

definition one_binding :: "db \<Rightarrow> bool" where
  "one_binding s \<longleftrightarrow> distinct (bound_payments (users s))"

section \<open>Example data\<close>

text \<open>
  The end-to-end scenario: order \<^verbatim>\<open>A1\<close> paid by \<^verbatim>\<open>a@b.com\<close>, one configured group,
  the buyer with chat identity 111 and an administrator with chat identity 999.
\<close>

definition ex_payment :: payment where
  "ex_payment =
     \<lparr>pay_id = 1, order_id = ''A1'', email = Some ''a@b.com'', phone = Some ''79161234567'',
      status = ''paid'', product_name = None, created_at = 100, used = False\<rparr>"

definition ex_group :: current_group where
  "ex_group =
     \<lparr>group_pk = 1, chat_id = None, group_name = ''Marathon'', invite_link = ''https://t.me/+abc''\<rparr>"

definition ex_user :: user where
  "ex_user =
     \<lparr>user_id = 1, telegram_id = ''111'', username = None, full_name = Some ''Ann'',
      payment_id = Some 1\<rparr>"

text \<open>
  A second order of the same buyer: ingested later (higher key), bought earlier
  (smaller \<^verbatim>\<open>created_at\<close>).
\<close>

definition ex_payment2 :: payment where
  "ex_payment2 =
     \<lparr>pay_id = 2, order_id = ''A2'', email = Some ''a@b.com'', phone = None,
      status = ''paid'', product_name = None, created_at = 50, used = False\<rparr>"

text \<open>Before the claim, after the claim, and after the first join request.\<close>

definition ex_db :: db where
  "ex_db = \<lparr>payments = [ex_payment], users = [], access_logs = [], groups = [ex_group]\<rparr>"

definition ex_claimed :: db where
  "ex_claimed =
     \<lparr>payments = [ex_payment\<lparr>used := True\<rparr>], users = [ex_user], access_logs = [],
      groups = [ex_group]\<rparr>"

definition ex_granted :: access_log where
  "ex_granted =
     \<lparr>log_id = 1, log_telegram_id = ''111'', log_email = Some ''a@b.com'', log_order_id = ''A1'',
      log_group_name = ''Marathon'', log_group_id = ''-1001'', log_action = ''granted'',
      log_timestamp = 5, log_comment = ''Auto-approved join request''\<rparr>"

definition ex_joined :: db where
  "ex_joined =
     \<lparr>payments = [ex_payment\<lparr>used := True\<rparr>], users = [ex_user], access_logs = [ex_granted],
      groups = [ex_group\<lparr>chat_id := Some ''-1001''\<rparr>]\<rparr>"

definition ex_msg :: message where
  "ex_msg =
     \<lparr>from_user = Some \<lparr>tg_id = 111, tg_username = None, tg_full_name = ''Ann''\<rparr>,
      msg_text = Some ''a@b.com''\<rparr>"

definition ex_admin_msg :: message where
  "ex_admin_msg =
     \<lparr>from_user = Some \<lparr>tg_id = 999, tg_username = None, tg_full_name = ''Admin''\<rparr>,
      msg_text = Some ''A1''\<rparr>"

text \<open>
  A stand-in for \<^verbatim>\<open>datetime.strptime\<close> that reads one timestamp; three webhook requests
  (a status outside the vocabulary, a repeated webhook for order \<^verbatim>\<open>A1\<close>, a new order
  with a phone only); the claimed state with no group row; a join request of the buyer.
\<close>

definition ex_strptime :: "string \<Rightarrow> string \<Rightarrow> int option" where
  "ex_strptime v fmt =
     (if v = ''2025-01-10 12:00:00'' \<and> fmt = ''%Y-%m-%d %H:%M:%S'' then Some 1736510400 else None)"

definition ex_refund_req :: request where
  "ex_refund_req =
     \<lparr>header_token = [], query_token = [], path_token = [],
      body = map_of [(''order_id'', Some ''R1''), (''email'', Some ''r@b.com''),
                     (''status'', Some ''Refunded'')]\<rparr>"

definition ex_repeat_req :: request where
  "ex_repeat_req =
     \<lparr>header_token = [], query_token = [], path_token = [],
      body = map_of [(''order_id'', Some ''A1''), (''email'', Some ''new@b.com''),
                     (''status'', Some ''success''), (''date'', Some ''2025-01-10 12:00:00'')]\<rparr>"

definition ex_new_req :: request where
  "ex_new_req =
     \<lparr>header_token = [], query_token = [], path_token = [],
      body = map_of [(''order_id'', Some ''B2''), (''phone'', Some ''+7 916 000-00-00''),
                     (''status'', Some ''pending'')]\<rparr>"

definition ex_nogroup :: db where
  "ex_nogroup =
     \<lparr>payments = [ex_payment\<lparr>used := True\<rparr>], users = [ex_user], access_logs = [], groups = []\<rparr>"

definition ex_event :: join_event where
  "ex_event = \<lparr>ev_user_id = 111, ev_chat_id = -1001, ev_chat_title = Some ''Marathon''\<rparr>"

lemmas ex_defs =
  ex_payment_def ex_group_def ex_user_def ex_db_def ex_claimed_def ex_joined_def ex_msg_def
  ex_admin_msg_def ex_strptime_def ex_refund_req_def ex_repeat_req_def ex_new_req_def
  ex_nogroup_def ex_event_def ex_payment2_def ex_granted_def

lemmas str_defs =
  strip_def isspace_def isdigit_def str_isdigit_def truthy_def endswith_def lower_def
  lower_char_def str_int_def str_nat.simps normalize_phone_def phone_variants_def
  BUTTON_CHECK_PAYMENT_def BUTTON_SUPPORT_def ADMIN_CANCEL_def

lemmas query_defs =
  claim_query_def used_query_def admin_query_def claim_filters_def admin_filters_def
  phone_filters_def or_filters_def created_desc_id_desc_def id_desc_def latest_group_def
  payment_user_def

lemmas webhook_defs =
  handle_prodamus_def is_authorized_def in_order_id_def in_email_def in_phone_def
  in_status_def in_product_name_def in_created_at_def parse_timestamp_def normalize_status_def
  status_mapping_def webhook_normalize_phone_def update_payment_def overlay_def next_id_def

section \<open>Properties\<close>

subsection \<open>Auxiliary facts\<close>

lemma first_by_None: "first_by precedes ps = None \<longleftrightarrow> ps = []"
  by (induction ps) (auto split: option.splits)

lemma update_payment_member:
  "p \<in> set ps \<Longrightarrow> f p \<in> set (update_payment (pay_id p) f ps)"
  by (auto simp: update_payment_def)

lemma find_Some_member: "find P xs = Some x \<Longrightarrow> x \<in> set xs \<and> P x"
  by (auto simp: find_Some_iff)

lemma fold_max_ge: "a \<le> fold max ks (a::nat)"
  by (induction ks arbitrary: a) (auto intro: order_trans [OF max.cobounded2])

lemma fold_max_member: "k \<in> set ks \<Longrightarrow> k \<le> fold max ks (a::nat)"
proof (induction ks arbitrary: a)
  case Nil
  then show ?case by simp
next
  case (Cons x xs)
  show ?case
  proof (cases "k = x")
    case True
    have "x \<le> max x a" by simp
    also have "\<dots> \<le> fold max xs (max x a)" by (rule fold_max_ge)
    finally show ?thesis using True by simp
  next
    case False
    with Cons show ?thesis by simp
  qed
qed

lemma next_id_fresh: "next_id ks \<notin> set ks"
proof
  assume "next_id ks \<in> set ks"
  then have "next_id ks \<le> fold max ks 0" by (rule fold_max_member)
  then show False by (simp add: next_id_def)
qed

lemma update_payment_distinct:
  assumes "distinct (map pay_id ps)" and "p \<in> set ps"
  shows "update_payment (pay_id p) f ps = map (\<lambda>q. if q = p then f p else q) ps"
proof -
  have "inj_on pay_id (set ps)" using assms(1) by (simp add: distinct_map)
  then have "\<And>q. q \<in> set ps \<Longrightarrow> (pay_id q = pay_id p) = (q = p)"
    using assms(2) by (auto dest: inj_onD)
  then show ?thesis by (auto simp: update_payment_def)
qed

lemma first_by_member: "first_by b xs = Some x \<Longrightarrow> x \<in> set xs"
  by (induction xs arbitrary: x) (auto split: option.splits if_splits)

lemma first_by_least:
  assumes asym: "\<And>p q. b p q \<Longrightarrow> \<not> b q p"
      and ntrans: "\<And>p q r. b p r \<Longrightarrow> b p q \<or> b q r"
  shows "first_by b xs = Some x \<Longrightarrow> \<forall>y \<in> set xs. \<not> b y x"
proof (induction xs arbitrary: x)
  case Nil
  then show ?case by simp
next
  case (Cons z zs)
  show ?case
  proof (cases "first_by b zs")
    case None
    then have "zs = []" by (simp add: first_by_None)
    with Cons.prems None show ?thesis using asym by auto
  next
    case (Some q)
    have ih: "\<forall>w \<in> set zs. \<not> b w q" using Cons.IH [OF Some] .
    show ?thesis
    proof (cases "b q z")
      case True
      with Some Cons.prems(1) have "x = q" by simp
      with True ih asym show ?thesis by auto
    next
      case False
      with Some Cons.prems(1) have x: "x = z" by simp
      have "\<not> b z z" using asym by blast
      moreover have "\<forall>w \<in> set zs. \<not> b w z"
      proof
        fix w assume w: "w \<in> set zs"
        show "\<not> b w z"
        proof
          assume "b w z"
          from ntrans [OF this, of q] have "b w q \<or> b q z" .
          with ih w False show False by blast
        qed
      qed
      ultimately show ?thesis using x by simp
    qed
  qed
qed

lemma created_desc_id_desc_least:
  assumes "first_by created_desc_id_desc xs = Some x" and "y \<in> set xs"
  shows "created_at y < created_at x \<or> (created_at y = created_at x \<and> pay_id y \<le> pay_id x)"
proof -
  have "\<forall>y \<in> set xs. \<not> created_desc_id_desc y x"
  proof (rule first_by_least [OF _ _ assms(1)])
    show "\<And>p q. created_desc_id_desc p q \<Longrightarrow> \<not> created_desc_id_desc q p"
      by (auto simp: created_desc_id_desc_def)
    show "\<And>p q r. created_desc_id_desc p r \<Longrightarrow> created_desc_id_desc p q \<or> created_desc_id_desc q r"
      by (auto simp: created_desc_id_desc_def)
  qed
  with assms(2) have "\<not> created_desc_id_desc y x" by blast
  then show ?thesis by (auto simp: created_desc_id_desc_def)
qed

lemma id_desc_least:
  assumes "first_by id_desc xs = Some x" and "y \<in> set xs"
  shows "pay_id y \<le> pay_id x"
proof -
  have "\<forall>y \<in> set xs. \<not> id_desc y x"
  proof (rule first_by_least [OF _ _ assms(1)])
    show "\<And>p q. id_desc p q \<Longrightarrow> \<not> id_desc q p"
      by (auto simp: id_desc_def)
    show "\<And>p q r. id_desc p r \<Longrightarrow> id_desc p q \<or> id_desc q r"
      by (auto simp: id_desc_def)
  qed
  with assms(2) have "\<not> id_desc y x" by blast
  then show ?thesis by (auto simp: id_desc_def)
qed

lemma holds_used: "holds c (p\<lparr>used := u\<rparr>) = holds c p"
  by (cases c) simp_all

lemma or_filters_used: "or_filters fs (p\<lparr>used := u\<rparr>) = or_filters fs p"
  by (simp add: or_filters_def holds_used)

lemma claim_query_after_mark:
  assumes "filter (\<lambda>q. status q = ''paid'' \<and> used q = False \<and> M q) ps = [p]"
  shows "filter (\<lambda>q. status q = ''paid'' \<and> used q = False \<and> M q)
           (update_payment (pay_id p) (\<lambda>q. q\<lparr>used := True\<rparr>) ps) = []"
proof -
  have only: "\<And>q. q \<in> set ps \<Longrightarrow> status q = ''paid'' \<and> used q = False \<and> M q \<Longrightarrow> q = p"
  proof -
    fix q assume "q \<in> set ps" "status q = ''paid'' \<and> used q = False \<and> M q"
    then have "q \<in> set (filter (\<lambda>q. status q = ''paid'' \<and> used q = False \<and> M q) ps)" by simp
    with assms show "q = p" by simp
  qed
  show ?thesis
    by (auto simp: filter_empty_conv update_payment_def dest: only)
qed

subsection \<open>The binding invariant\<close>

text \<open>Two user rows bound to one payment are one row; steps towards claim C1.\<close>

lemma bound_payments_append [simp]:
  "bound_payments (us @ vs) = bound_payments us @ bound_payments vs"
  by (induction us) (auto split: option.splits)

lemma set_bound_payments:
  "set (bound_payments us) = {k. \<exists>u \<in> set us. payment_id u = Some k}"
  by (induction us) (auto split: option.splits)

lemma one_holder:
  "distinct (bound_payments us) \<Longrightarrow> u \<in> set us \<Longrightarrow> v \<in> set us \<Longrightarrow>
   payment_id u = Some k \<Longrightarrow> payment_id v = Some k \<Longrightarrow> u = v"
  by (induction us) (auto simp: set_bound_payments split: option.splits)

lemma update_user_ids [simp]:
  "map user_id (update_user k (\<lambda>u. u\<lparr>payment_id := v\<rparr>) us) = map user_id us"
  by (induction us) (auto simp: update_user_def)

lemma update_user_tgs [simp]:
  "map telegram_id (update_user k (\<lambda>u. u\<lparr>payment_id := v\<rparr>) us) = map telegram_id us"
  by (induction us) (auto simp: update_user_def)

lemma update_user_absent:
  "k \<notin> set (map user_id us) \<Longrightarrow> update_user k f us = us"
  by (induction us) (auto simp: update_user_def)

lemma update_user_member:
  "u \<in> set us \<Longrightarrow> f u \<in> set (update_user (user_id u) f us)"
  by (auto simp: update_user_def)

lemma update_user_other:
  "u \<in> set us \<Longrightarrow> user_id u \<noteq> k \<Longrightarrow> u \<in> set (update_user k f us)"
  by (auto simp: update_user_def)

lemma set_bound_clear:
  "set (bound_payments (update_user k (\<lambda>u. u\<lparr>payment_id := None\<rparr>) us)) \<subseteq> set (bound_payments us)"
  by (auto simp: set_bound_payments update_user_def split: if_splits)

lemma set_bound_set:
  "set (bound_payments (update_user k (\<lambda>u. u\<lparr>payment_id := Some P\<rparr>) us))
     \<subseteq> insert P (set (bound_payments us))"
  by (auto simp: set_bound_payments update_user_def split: if_splits)

lemma distinct_bound_clear:
  "distinct (bound_payments us) \<Longrightarrow>
   distinct (bound_payments (update_user k (\<lambda>u. u\<lparr>payment_id := None\<rparr>) us))"
proof (induction us)
  case Nil
  then show ?case by (simp add: update_user_def)
next
  case (Cons x xs)
  have sub: "set (bound_payments (update_user k (\<lambda>u. u\<lparr>payment_id := None\<rparr>) xs)) \<subseteq> set (bound_payments xs)"
    by (rule set_bound_clear)
  have split: "update_user k (\<lambda>u. u\<lparr>payment_id := None\<rparr>) (x # xs) =
     (if user_id x = k then x\<lparr>payment_id := None\<rparr> else x) # update_user k (\<lambda>u. u\<lparr>payment_id := None\<rparr>) xs"
    by (simp add: update_user_def)
  from Cons sub show ?case
    by (auto simp: split split: option.splits)
qed

lemma distinct_bound_set:
  assumes "distinct (bound_payments us)" and "distinct (map user_id us)"
      and "\<forall>u \<in> set us. payment_id u = Some P \<longrightarrow> user_id u = k"
  shows "distinct (bound_payments (update_user k (\<lambda>u. u\<lparr>payment_id := Some P\<rparr>) us))"
  using assms
proof (induction us)
  case Nil
  then show ?case by (simp add: update_user_def)
next
  case (Cons x xs)
  let ?f = "\<lambda>u. u\<lparr>payment_id := Some P\<rparr>"
  have split: "update_user k ?f (x # xs) = (if user_id x = k then ?f x else x) # update_user k ?f xs"
    by (simp add: update_user_def)
  have dxs: "distinct (bound_payments xs)"
    using Cons.prems(1) by (auto split: option.splits)
  have ih: "distinct (bound_payments (update_user k ?f xs))"
    using Cons.IH dxs Cons.prems(2,3) by simp
  show ?case
  proof (cases "user_id x = k")
    case True
    then have "k \<notin> set (map user_id xs)" using Cons.prems(2) by auto
    then have same: "update_user k ?f xs = xs" by (rule update_user_absent)
    have "P \<notin> set (bound_payments xs)"
    proof
      assume "P \<in> set (bound_payments xs)"
      then obtain v where v: "v \<in> set xs" "payment_id v = Some P"
        by (auto simp: set_bound_payments)
      with Cons.prems(3) have "user_id v = k" by simp
      with v(1) \<open>k \<notin> set (map user_id xs)\<close> show False by auto
    qed
    with dxs True same show ?thesis by (simp add: split)
  next
    case False
    show ?thesis
    proof (cases "payment_id x")
      case None
      with False ih show ?thesis by (simp add: split)
    next
      case (Some j)
      with False Cons.prems(3) have "j \<noteq> P" by auto
      moreover have "j \<notin> set (bound_payments xs)"
        using Cons.prems(1) Some by simp
      ultimately have "j \<notin> set (bound_payments (update_user k ?f xs))"
        using set_bound_set [of k P xs] by auto
      with False Some ih show ?thesis by (simp add: split)
    qed
  qed
qed

lemma no_holder_after_clear:
  assumes "distinct (bound_payments us)" and "h \<in> set us" and "payment_id h = Some P"
  shows "P \<notin> set (bound_payments (update_user (user_id h) (\<lambda>u. u\<lparr>payment_id := None\<rparr>) us))"
proof
  assume "P \<in> set (bound_payments (update_user (user_id h) (\<lambda>u. u\<lparr>payment_id := None\<rparr>) us))"
  then obtain v where v: "v \<in> set us" "user_id v \<noteq> user_id h" "payment_id v = Some P"
    by (auto simp: set_bound_payments update_user_def split: if_splits)
  with one_holder [OF assms(1) v(1) assms(2) v(3) assms(3)] show False by simp
qed

lemma find_None_bound:
  "find (\<lambda>u. payment_id u = Some P) us = None \<Longrightarrow> P \<notin> set (bound_payments us)"
  by (auto simp: find_None_iff set_bound_payments)

lemma same_tg_same_row:
  "distinct (map telegram_id us) \<Longrightarrow> u \<in> set us \<Longrightarrow> v \<in> set us \<Longrightarrow>
   telegram_id u = telegram_id v \<Longrightarrow> u = v"
  by (auto simp: distinct_map dest: inj_onD)

lemma same_id_same_row:
  "distinct (map user_id us) \<Longrightarrow> u \<in> set us \<Longrightarrow> v \<in> set us \<Longrightarrow>
   user_id u = user_id v \<Longrightarrow> u = v"
  by (auto simp: distinct_map dest: inj_onD)

lemma claim_result:
  obtains (same) "fst (handle_email_or_order s m) = s"
  | (bound) sender raw payment where
      "from_user m = Some sender" "msg_text m = Some raw"
      "claim_query (payments s) (strip raw) = Some payment"
      "\<not> (case find (\<lambda>u. payment_id u = Some (pay_id payment)) (users s) of
             None \<Rightarrow> False | Some e \<Rightarrow> telegram_id e \<noteq> str_int (tg_id sender))"
      "fst (handle_email_or_order s m) =
         s\<lparr>users :=
             (case find (\<lambda>u. telegram_id u = str_int (tg_id sender)) (users s) of
                None \<Rightarrow>
                  users s @
                    [\<lparr>user_id = next_id (map user_id (users s)),
                      telegram_id = str_int (tg_id sender),
                      username = tg_username sender,
                      full_name = Some (tg_full_name sender),
                      payment_id = Some (pay_id payment)\<rparr>]
              | Some u \<Rightarrow>
                  update_user (user_id u) (\<lambda>u. u\<lparr>payment_id := Some (pay_id payment)\<rparr>) (users s)),
           payments := update_payment (pay_id payment) (\<lambda>p. p\<lparr>used := True\<rparr>) (payments s)\<rparr>"
proof (cases "from_user m")
  case None
  then show ?thesis using same by (simp add: handle_email_or_order_def)
next
  case fu: (Some sender)
  show ?thesis
  proof (cases "msg_text m")
    case None
    then show ?thesis using same fu by (simp add: handle_email_or_order_def)
  next
    case mt: (Some raw)
    show ?thesis
    proof (cases "claim_query (payments s) (strip raw)")
      case None
      then show ?thesis using same fu mt
        by (simp add: handle_email_or_order_def Let_def split: option.splits)
    next
      case cq: (Some payment)
      show ?thesis
      proof (cases "fst (handle_email_or_order s m) = s")
        case True
        then show ?thesis by (rule same)
      next
        case False
        then have guards: "raw \<noteq> []" "strip raw \<notin> set [BUTTON_CHECK_PAYMENT, BUTTON_SUPPORT]"
            "strip raw \<noteq> []"
            "\<not> (case find (\<lambda>u. payment_id u = Some (pay_id payment)) (users s) of
                   None \<Rightarrow> False | Some e \<Rightarrow> telegram_id e \<noteq> str_int (tg_id sender))"
          using fu mt cq by (auto simp: handle_email_or_order_def Let_def split: if_splits)
        show ?thesis
          apply (rule bound [OF fu mt cq guards(4)])
          using fu mt cq guards
          by (simp add: handle_email_or_order_def Let_def split: option.splits)
      qed
    qed
  qed
qed

lemma claim_preserves:
  assumes "schema_ok s" and "one_binding s"
  shows "schema_ok (fst (handle_email_or_order s m)) \<and> one_binding (fst (handle_email_or_order s m))"
proof (cases rule: claim_result [of s m])
  case same
  with assms show ?thesis by simp
next
  case (bound sender raw payment)
  let ?P = "pay_id payment" and ?me = "str_int (tg_id sender)"
  from assms have ids: "distinct (map user_id (users s))"
    and tgs: "distinct (map telegram_id (users s))"
    and d: "distinct (bound_payments (users s))"
    by (simp_all add: schema_ok_def one_binding_def)
  show ?thesis
  proof (cases "find (\<lambda>u. telegram_id u = ?me) (users s)")
    case None
    then have fresh_tg: "?me \<notin> set (map telegram_id (users s))"
      by (auto simp: find_None_iff)
    have "find (\<lambda>u. payment_id u = Some ?P) (users s) = None"
    proof (cases "find (\<lambda>u. payment_id u = Some ?P) (users s)")
      case (Some e)
      with bound(4) have "telegram_id e = ?me" by simp
      moreover from Some have "e \<in> set (users s)"
        using find_Some_member [of _ "users s" e] by blast
      ultimately have "?me \<in> telegram_id ` set (users s)" by (metis imageI)
      with fresh_tg show ?thesis by simp
    qed simp
    then have "?P \<notin> set (bound_payments (users s))" by (rule find_None_bound)
    with None ids tgs d fresh_tg next_id_fresh [of "map user_id (users s)"] show ?thesis
      by (simp add: bound(5) schema_ok_def one_binding_def)
  next
    case (Some n)
    then have n: "n \<in> set (users s)" "telegram_id n = ?me"
      using find_Some_member [of "\<lambda>u. telegram_id u = ?me" "users s" n] by auto
    have holders: "\<forall>u \<in> set (users s). payment_id u = Some ?P \<longrightarrow> user_id u = user_id n"
    proof (intro ballI impI)
      fix u assume u: "u \<in> set (users s)" "payment_id u = Some ?P"
      then have "find (\<lambda>u. payment_id u = Some ?P) (users s) \<noteq> None"
        by (auto simp: find_None_iff)
      then obtain e where e: "find (\<lambda>u. payment_id u = Some ?P) (users s) = Some e" by auto
      then have em: "e \<in> set (users s)" "payment_id e = Some ?P"
        using find_Some_member [of "\<lambda>u. payment_id u = Some ?P" "users s" e] by auto
      from e bound(4) have "telegram_id e = ?me" by simp
      with same_tg_same_row [OF tgs em(1) n(1)] n(2) have "e = n" by simp
      moreover from one_holder [OF d u(1) em(1) u(2) em(2)] have "u = e" .
      ultimately show "user_id u = user_id n" by simp
    qed
    from distinct_bound_set [OF d ids holders] Some ids tgs show ?thesis
      by (simp add: bound(5) schema_ok_def one_binding_def)
  qed
qed

lemma rebind_result:
  fixes s :: db and key tg :: string and payment :: payment
  assumes "admin_query (payments s) key = Some payment"
  defines "users1 \<equiv>
     (case find (\<lambda>u. payment_id u = Some (pay_id payment)) (users s) of
        None \<Rightarrow> users s
      | Some old \<Rightarrow>
          if Some (user_id old) \<noteq> map_option user_id (find (\<lambda>u. telegram_id u = tg) (users s))
          then update_user (user_id old) (\<lambda>u. u\<lparr>payment_id := None\<rparr>) (users s)
          else users s)"
  shows "users (fst (rebind_payment_to_user s key tg)) =
     (case find (\<lambda>u. telegram_id u = tg) (users s) of
        None \<Rightarrow>
          users1 @
            [\<lparr>user_id = next_id (map user_id (users s)), telegram_id = tg, username = None,
              full_name = None, payment_id = Some (pay_id payment)\<rparr>]
      | Some n \<Rightarrow> update_user (user_id n) (\<lambda>u. u\<lparr>payment_id := Some (pay_id payment)\<rparr>) users1)"
  using assms(1) by (simp add: rebind_payment_to_user_def Let_def users1_def split: option.splits)

lemma rebind_preserves:
  assumes "schema_ok s" and "one_binding s"
  shows "schema_ok (fst (rebind_payment_to_user s key tg)) \<and>
         one_binding (fst (rebind_payment_to_user s key tg))"
proof (cases "admin_query (payments s) key")
  case None
  with assms show ?thesis by (simp add: rebind_payment_to_user_def)
next
  case (Some payment)
  let ?P = "pay_id payment"
  let ?new = "find (\<lambda>u. telegram_id u = tg) (users s)"
  let ?old = "find (\<lambda>u. payment_id u = Some ?P) (users s)"
  define users1 where "users1 =
     (case ?old of
        None \<Rightarrow> users s
      | Some old \<Rightarrow>
          if Some (user_id old) \<noteq> map_option user_id ?new
          then update_user (user_id old) (\<lambda>u. u\<lparr>payment_id := None\<rparr>) (users s)
          else users s)"
  have res: "users (fst (rebind_payment_to_user s key tg)) =
     (case ?new of
        None \<Rightarrow>
          users1 @
            [\<lparr>user_id = next_id (map user_id (users s)), telegram_id = tg, username = None,
              full_name = None, payment_id = Some ?P\<rparr>]
      | Some n \<Rightarrow> update_user (user_id n) (\<lambda>u. u\<lparr>payment_id := Some ?P\<rparr>) users1)"
    unfolding users1_def by (rule rebind_result [OF Some])
  from assms have ids: "distinct (map user_id (users s))"
    and tgs: "distinct (map telegram_id (users s))"
    and d: "distinct (bound_payments (users s))"
    by (simp_all add: schema_ok_def one_binding_def)
  have ids1: "map user_id users1 = map user_id (users s)"
    and tgs1: "map telegram_id users1 = map telegram_id (users s)"
    by (simp_all add: users1_def split: option.splits)
  have d1: "distinct (bound_payments users1)"
    using d by (simp add: users1_def distinct_bound_clear split: option.splits)
  show ?thesis
  proof (cases ?new)
    case None
    then have fresh_tg: "tg \<notin> set (map telegram_id (users s))"
      by (auto simp: find_None_iff)
    have "?P \<notin> set (bound_payments users1)"
    proof (cases ?old)
      case None
      then show ?thesis by (simp add: users1_def find_None_bound)
    next
      case (Some old)
      then have "old \<in> set (users s)" "payment_id old = Some ?P"
        using find_Some_member [of "\<lambda>u. payment_id u = Some ?P" "users s" old] by auto
      from no_holder_after_clear [OF d this] Some \<open>?new = None\<close> show ?thesis
        by (simp add: users1_def)
    qed
    with None d1 ids tgs ids1 tgs1 fresh_tg next_id_fresh [of "map user_id (users s)"]
    show ?thesis
      by (simp add: res schema_ok_def one_binding_def)
  next
    case (Some n)
    then have n: "n \<in> set (users s)" "telegram_id n = tg"
      using find_Some_member [of "\<lambda>u. telegram_id u = tg" "users s" n] by auto
    have holders: "\<forall>u \<in> set users1. payment_id u = Some ?P \<longrightarrow> user_id u = user_id n"
    proof (cases ?old)
      case None
      then have "?P \<notin> set (bound_payments users1)" by (simp add: users1_def find_None_bound)
      then show ?thesis by (auto simp: set_bound_payments)
    next
      case old: (Some old)
      then have om: "old \<in> set (users s)" "payment_id old = Some ?P"
        using find_Some_member [of "\<lambda>u. payment_id u = Some ?P" "users s" old] by auto
      show ?thesis
      proof (cases "user_id old = user_id n")
        case True
        with old Some have u1: "users1 = users s" by (simp add: users1_def)
        show ?thesis
        proof (intro ballI impI)
          fix u assume "u \<in> set users1" "payment_id u = Some ?P"
          with u1 one_holder [OF d _ om(1) _ om(2), of u] have "u = old" by simp
          with True show "user_id u = user_id n" by simp
        qed
      next
        case False
        with old Some have "users1 = update_user (user_id old) (\<lambda>u. u\<lparr>payment_id := None\<rparr>) (users s)"
          by (simp add: users1_def)
        with no_holder_after_clear [OF d om] have "?P \<notin> set (bound_payments users1)" by simp
        then show ?thesis by (auto simp: set_bound_payments)
      qed
    qed
    have "distinct (map user_id users1)" using ids ids1 by simp
    from distinct_bound_set [OF d1 this holders] Some ids tgs ids1 tgs1 show ?thesis
      by (simp add: res schema_ok_def one_binding_def)
  qed
qed

lemma rebind_evicts:
  assumes "schema_ok s" and "one_binding s"
      and q: "admin_query (payments s) key = Some payment"
      and a: "a \<in> set (users s)" "payment_id a = Some (pay_id payment)"
      and other: "telegram_id a \<noteq> tg"
  shows "a\<lparr>payment_id := None\<rparr> \<in> set (users (fst (rebind_payment_to_user s key tg))) \<and>
         (\<exists>b \<in> set (users (fst (rebind_payment_to_user s key tg))).
             telegram_id b = tg \<and> payment_id b = Some (pay_id payment))"
proof -
  let ?P = "pay_id payment"
  let ?new = "find (\<lambda>u. telegram_id u = tg) (users s)"
  let ?old = "find (\<lambda>u. payment_id u = Some ?P) (users s)"
  let ?users1 = "update_user (user_id a) (\<lambda>u. u\<lparr>payment_id := None\<rparr>) (users s)"
  from assms have ids: "distinct (map user_id (users s))"
    and d: "distinct (bound_payments (users s))"
    by (simp_all add: schema_ok_def one_binding_def)
  have "?old \<noteq> None" using a by (auto simp: find_None_iff)
  then obtain old where old: "?old = Some old" by auto
  then have "old \<in> set (users s)" "payment_id old = Some ?P"
    using find_Some_member [of "\<lambda>u. payment_id u = Some ?P" "users s" old] by auto
  with one_holder [OF d _ a(1) _ a(2), of old] have oa: "old = a" by simp
  have a': "a\<lparr>payment_id := None\<rparr> \<in> set ?users1"
    using update_user_member [OF a(1), of "\<lambda>u. u\<lparr>payment_id := None\<rparr>"] .
  show ?thesis
  proof (cases ?new)
    case None
    with old oa have "users (fst (rebind_payment_to_user s key tg)) =
        ?users1 @ [\<lparr>user_id = next_id (map user_id (users s)), telegram_id = tg, username = None,
                    full_name = None, payment_id = Some ?P\<rparr>]"
      by (simp add: rebind_result [OF q])
    with a' show ?thesis by simp
  next
    case (Some n)
    then have n: "n \<in> set (users s)" "telegram_id n = tg"
      using find_Some_member [of "\<lambda>u. telegram_id u = tg" "users s" n] by auto
    have ne: "user_id n \<noteq> user_id a"
    proof
      assume "user_id n = user_id a"
      from same_id_same_row [OF ids n(1) a(1) this] n(2) other show False by simp
    qed
    with Some old oa have res: "users (fst (rebind_payment_to_user s key tg)) =
        update_user (user_id n) (\<lambda>u. u\<lparr>payment_id := Some ?P\<rparr>) ?users1"
      by (simp add: rebind_result [OF q])
    have "a\<lparr>payment_id := None\<rparr> \<in> set (update_user (user_id n) (\<lambda>u. u\<lparr>payment_id := Some ?P\<rparr>) ?users1)"
      using update_user_other [OF a', of "user_id n"] ne by simp
    moreover have "n \<in> set ?users1"
      using update_user_other [OF n(1), of "user_id a"] ne by simp
    then have "n\<lparr>payment_id := Some ?P\<rparr> \<in> set (update_user (user_id n) (\<lambda>u. u\<lparr>payment_id := Some ?P\<rparr>) ?users1)"
      by (rule update_user_member)
    ultimately show ?thesis using n(2)
      by (auto simp: res intro!: bexI [of _ "n\<lparr>payment_id := Some ?P\<rparr>"])
  qed
qed

lemma other_operations_keep_users:
  "users (fst (approve_join_request utcnow approve_ok s ev)) = users s"
  "users (fst (admin_remove_user admin_ids utcnow ban_ok s m)) = users s"
  "users (fst (admin_unban_user admin_ids utcnow unban_ok s m)) = users s"
  "users (fst (handle_prodamus tok strp utcnow s req)) = users s"
  by (auto simp: approve_join_request_def grant_def admin_remove_user_def admin_unban_user_def
        handle_prodamus_def Let_def split: option.splits)

lemma one_binding_count:
  "distinct (bound_payments us) \<Longrightarrow> length (filter (\<lambda>u. payment_id u = Some P) us) \<le> 1"
proof (induction us)
  case Nil
  then show ?case by simp
next
  case (Cons x xs)
  show ?case
  proof (cases "payment_id x = Some P")
    case True
    with Cons.prems have "P \<notin> set (bound_payments xs)" by simp
    then have "filter (\<lambda>u. payment_id u = Some P) xs = []"
      by (auto simp: set_bound_payments filter_empty_conv)
    with True show ?thesis by simp
  next
    case False
    moreover from Cons.prems have "distinct (bound_payments xs)" by (auto split: option.splits)
    ultimately show ?thesis using Cons.IH by simp
  qed
qed

text \<open>
  Claim C1. In a state where no payment is referenced by two user rows (and the schema's
  constraints on the user table hold), every payment is referenced by at most one user
  row, and the same is true after each operation: the self-service claim, the
  administrative rebind, the join confirmation, the revoke, the restore and the webhook
  upsert. Rebinding a payment held by identity \<open>a\<close> to another identity \<open>tg\<close> leaves
  \<open>a\<close> with no payment and gives the payment to the row of \<open>tg\<close>.
\<close>

theorem at_most_one_binding:
  assumes "schema_ok s" and "one_binding s"
  shows "(\<forall>P. length (filter (\<lambda>u. payment_id u = Some P) (users s)) \<le> 1) \<and>
         schema_ok (fst (handle_email_or_order s m)) \<and>
         one_binding (fst (handle_email_or_order s m)) \<and>
         schema_ok (fst (rebind_payment_to_user s key tg)) \<and>
         one_binding (fst (rebind_payment_to_user s key tg)) \<and>
         schema_ok (fst (approve_join_request utcnow approve_ok s ev)) \<and>
         one_binding (fst (approve_join_request utcnow approve_ok s ev)) \<and>
         schema_ok (fst (admin_remove_user admin_ids utcnow ban_ok s am)) \<and>
         one_binding (fst (admin_remove_user admin_ids utcnow ban_ok s am)) \<and>
         schema_ok (fst (admin_unban_user admin_ids utcnow unban_ok s am)) \<and>
         one_binding (fst (admin_unban_user admin_ids utcnow unban_ok s am)) \<and>
         schema_ok (fst (handle_prodamus tok strp utcnow s req)) \<and>
         one_binding (fst (handle_prodamus tok strp utcnow s req)) \<and>
         (\<forall>a payment.
            admin_query (payments s) key = Some payment \<and> a \<in> set (users s) \<and>
            payment_id a = Some (pay_id payment) \<and> telegram_id a \<noteq> tg \<longrightarrow>
            a\<lparr>payment_id := None\<rparr> \<in> set (users (fst (rebind_payment_to_user s key tg))) \<and>
            (\<exists>b \<in> set (users (fst (rebind_payment_to_user s key tg))).
               telegram_id b = tg \<and> payment_id b = Some (pay_id payment)))"
proof -
  have count: "\<forall>P. length (filter (\<lambda>u. payment_id u = Some P) (users s)) \<le> 1"
    using assms(2) one_binding_count [of "users s"] by (simp only: one_binding_def) blast
  have claim: "schema_ok (fst (handle_email_or_order s m)) \<and>
               one_binding (fst (handle_email_or_order s m))"
    by (rule claim_preserves [OF assms])
  have rebind: "schema_ok (fst (rebind_payment_to_user s key tg)) \<and>
                one_binding (fst (rebind_payment_to_user s key tg))"
    by (rule rebind_preserves [OF assms])
  have rest: "schema_ok (fst (approve_join_request utcnow approve_ok s ev)) \<and>
         one_binding (fst (approve_join_request utcnow approve_ok s ev)) \<and>
         schema_ok (fst (admin_remove_user admin_ids utcnow ban_ok s am)) \<and>
         one_binding (fst (admin_remove_user admin_ids utcnow ban_ok s am)) \<and>
         schema_ok (fst (admin_unban_user admin_ids utcnow unban_ok s am)) \<and>
         one_binding (fst (admin_unban_user admin_ids utcnow unban_ok s am)) \<and>
         schema_ok (fst (handle_prodamus tok strp utcnow s req)) \<and>
         one_binding (fst (handle_prodamus tok strp utcnow s req))"
    using assms by (simp add: schema_ok_def one_binding_def other_operations_keep_users)
  have evict: "\<forall>a payment.
            admin_query (payments s) key = Some payment \<and> a \<in> set (users s) \<and>
            payment_id a = Some (pay_id payment) \<and> telegram_id a \<noteq> tg \<longrightarrow>
            a\<lparr>payment_id := None\<rparr> \<in> set (users (fst (rebind_payment_to_user s key tg))) \<and>
            (\<exists>b \<in> set (users (fst (rebind_payment_to_user s key tg))).
               telegram_id b = tg \<and> payment_id b = Some (pay_id payment))"
    using rebind_evicts [OF assms] by blast
  from count claim rebind rest evict show ?thesis by blast
qed

text \<open>
  In the scenario, the payment claimed by identity 111 is rebound to identity 222; the
  empty database satisfies the invariant.
\<close>

theorem at_most_one_binding_witness:
  "schema_ok ex_claimed \<and> one_binding ex_claimed \<and>
   admin_query (payments ex_claimed) ''A1'' = Some (ex_payment\<lparr>used := True\<rparr>) \<and>
   ex_user \<in> set (users ex_claimed) \<and> payment_id ex_user = Some 1 \<and>
   users (fst (rebind_payment_to_user ex_claimed ''A1'' ''222'')) =
     [ex_user\<lparr>payment_id := None\<rparr>,
      \<lparr>user_id = 2, telegram_id = ''222'', username = None, full_name = None,
       payment_id = Some 1\<rparr>] \<and>
   one_binding (fst (rebind_payment_to_user ex_claimed ''A1'' ''222'')) \<and>
   one_binding (fst (handle_email_or_order ex_db ex_msg)) \<and>
   schema_ok empty_db \<and> one_binding empty_db"
proof -
  have a: "schema_ok ex_claimed" "one_binding ex_claimed"
    by (simp_all add: schema_ok_def one_binding_def ex_defs)
  have b: "admin_query (payments ex_claimed) ''A1'' = Some (ex_payment\<lparr>used := True\<rparr>)"
    by (simp add: ex_defs query_defs str_defs)
  have c: "ex_user \<in> set (users ex_claimed)" "payment_id ex_user = Some 1"
    by (simp_all add: ex_defs)
  have d: "users (fst (rebind_payment_to_user ex_claimed ''A1'' ''222'')) =
     [ex_user\<lparr>payment_id := None\<rparr>,
      \<lparr>user_id = 2, telegram_id = ''222'', username = None, full_name = None,
       payment_id = Some 1\<rparr>]"
    by (simp add: rebind_payment_to_user_def ex_defs query_defs str_defs update_user_def
          update_payment_def next_id_def Let_def)
  have e: "one_binding (fst (rebind_payment_to_user ex_claimed ''A1'' ''222''))"
    using at_most_one_binding [OF a, of "ex_msg" "''A1''" "''222''"] by blast
  have f: "schema_ok ex_db" "one_binding ex_db"
    by (simp_all add: schema_ok_def one_binding_def ex_defs)
  have g: "one_binding (fst (handle_email_or_order ex_db ex_msg))"
    using at_most_one_binding [OF f, of "ex_msg"] by blast
  have h: "schema_ok empty_db" "one_binding empty_db"
    by (simp_all add: schema_ok_def one_binding_def empty_db_def)
  from a b c d e g h show ?thesis by blast
qed

subsection \<open>Self-service claim, submitted twice\<close>

text \<open>
  What the handler does with a second submission. After a claim of the only unused paid
  match, the payment is used and bound to the sender. The handler has marked the payment
  used itself (\<^verbatim>\<open>payment.used = True\<close>), and its primary query selects unused payments
  only, so the same identifier submitted again reaches the "already used" probe alone:
  the tables stay as they are and the reply is the "already used" notice.
\<close>

lemma reclaim_is_refused:
  assumes first: "handle_email_or_order s m = (s', r)"
      and ok: "r = ConfirmedNoGroup \<or> r = Invite l g"
      and single: "filter (\<lambda>q. status q = ''paid'' \<and> used q = False \<and>
                               or_filters (claim_filters (strip (the (msg_text m)))) q)
                     (payments s) = [p]"
  shows "handle_email_or_order s' m = (s', AlreadyUsed) \<and>
         p\<lparr>used := True\<rparr> \<in> set (payments s') \<and>
         (\<exists>sender u. from_user m = Some sender \<and> u \<in> set (users s') \<and>
                     telegram_id u = str_int (tg_id sender) \<and> payment_id u = Some (pay_id p))"
proof -
  obtain sender raw where fu: "from_user m = Some sender" and mt: "msg_text m = Some raw"
    using first ok by (auto simp: handle_email_or_order_def split: option.splits)
  define t where "t = strip raw"
  let ?me = "str_int (tg_id sender)"
  have guards: "raw \<noteq> []" "t \<notin> set [BUTTON_CHECK_PAYMENT, BUTTON_SUPPORT]" "t \<noteq> []"
    using first ok fu mt by (auto simp: handle_email_or_order_def Let_def t_def split: if_splits)
  have cq: "claim_query (payments s) t = Some p"
    using single mt by (simp add: claim_query_def t_def)
  have pays: "payments s' = update_payment (pay_id p) (\<lambda>q. q\<lparr>used := True\<rparr>) (payments s)"
    using first ok fu mt guards cq
    by (auto simp: handle_email_or_order_def Let_def t_def split: if_splits option.splits)
  have usrs: "users s' =
      (case find (\<lambda>u. telegram_id u = ?me) (users s) of
         None \<Rightarrow>
           users s @
             [\<lparr>user_id = next_id (map user_id (users s)), telegram_id = ?me,
               username = tg_username sender, full_name = Some (tg_full_name sender),
               payment_id = Some (pay_id p)\<rparr>]
       | Some u \<Rightarrow> update_user (user_id u) (\<lambda>u. u\<lparr>payment_id := Some (pay_id p)\<rparr>) (users s))"
    using first ok fu mt guards cq
    by (auto simp: handle_email_or_order_def Let_def t_def split: if_splits option.splits)
  have none: "claim_query (payments s') t = None"
    using claim_query_after_mark [OF single [unfolded mt option.sel, folded t_def]]
    by (simp add: claim_query_def pays)
  have "p \<in> set (filter (\<lambda>q. status q = ''paid'' \<and> used q = False \<and> or_filters (claim_filters t) q)
                   (payments s))"
    using single mt by (simp add: t_def)
  then have m: "p \<in> set (payments s)" and paid: "status p = ''paid''"
    and match: "or_filters (claim_filters t) p" by auto
  have marked: "p\<lparr>used := True\<rparr> \<in> set (payments s')"
    using update_payment_member [OF m, of "\<lambda>q. q\<lparr>used := True\<rparr>"] by (simp add: pays)
  moreover have "status (p\<lparr>used := True\<rparr>) = ''paid'' \<and> or_filters (claim_filters t) (p\<lparr>used := True\<rparr>)"
    using paid match by (simp add: or_filters_used)
  ultimately have "\<exists>x \<in> set (payments s'). status x = ''paid'' \<and> or_filters (claim_filters t) x"
    by (intro bexI [of _ "p\<lparr>used := True\<rparr>"]) simp_all
  then have "filter (\<lambda>q. status q = ''paid'' \<and> or_filters (claim_filters t) q) (payments s') \<noteq> []"
    by (simp add: filter_empty_conv)
  then have some: "used_query (payments s') t \<noteq> None"
    by (simp add: used_query_def first_by_None)
  have again: "handle_email_or_order s' m = (s', AlreadyUsed)"
    using fu mt guards none some
    by (auto simp: handle_email_or_order_def Let_def t_def split: option.splits)
  have bound: "\<exists>u. u \<in> set (users s') \<and> telegram_id u = ?me \<and> payment_id u = Some (pay_id p)"
  proof (cases "find (\<lambda>u. telegram_id u = ?me) (users s)")
    case None
    then show ?thesis by (auto simp: usrs)
  next
    case (Some n)
    then have n: "n \<in> set (users s)" "telegram_id n = ?me"
      using find_Some_member [of "\<lambda>u. telegram_id u = ?me" "users s" n] by auto
    have "n\<lparr>payment_id := Some (pay_id p)\<rparr> \<in> set (users s')"
      using update_user_member [OF n(1), of "\<lambda>u. u\<lparr>payment_id := Some (pay_id p)\<rparr>"] Some
      by (simp add: usrs)
    with n(2) show ?thesis
      by (intro exI [of _ "n\<lparr>payment_id := Some (pay_id p)\<rparr>"]) simp
  qed
  from again marked bound fu show ?thesis by blast
qed

text \<open>
  The handler provides for the owner of a payment: the check on \<^verbatim>\<open>existing_user\<close> refuses
  another identity and lets the owner through to the invite. That check is never
  reached with a holder in a state where every bound payment is used, which is what
  each binding operation leaves behind: the "other account" reply cannot occur.
\<close>

lemma owner_check_dead:
  assumes consumed: "\<forall>u \<in> set (users s). \<forall>p \<in> set (payments s).
                       payment_id u = Some (pay_id p) \<longrightarrow> used p"
  shows "snd (handle_email_or_order s m) \<noteq> OtherAccount"
proof
  assume other: "snd (handle_email_or_order s m) = OtherAccount"
  then obtain sender raw where fu: "from_user m = Some sender" and mt: "msg_text m = Some raw"
    by (auto simp: handle_email_or_order_def split: option.splits)
  from other fu mt obtain payment where cq: "claim_query (payments s) (strip raw) = Some payment"
    by (auto simp: handle_email_or_order_def Let_def split: option.splits if_splits)
  from other fu mt cq obtain e where
    e: "find (\<lambda>u. payment_id u = Some (pay_id payment)) (users s) = Some e"
    by (auto simp: handle_email_or_order_def Let_def split: option.splits if_splits)
  from cq have "payment \<in> set (filter (\<lambda>p. status p = ''paid'' \<and> used p = False \<and>
                    or_filters (claim_filters (strip raw)) p) (payments s))"
    unfolding claim_query_def by (rule first_by_member)
  then have p: "payment \<in> set (payments s)" "\<not> used payment" by auto
  from e have "e \<in> set (users s)" "payment_id e = Some (pay_id payment)"
    using find_Some_member [of "\<lambda>u. payment_id u = Some (pay_id payment)" "users s" e] by auto
  with consumed p(1) have "used payment" by blast
  with p(2) show False by simp
qed

text \<open>
  Claim C3 at the end-to-end scenario. The buyer sends \<^verbatim>\<open>a@b.com\<close>, is bound and receives
  the invite. The same buyer sends \<^verbatim>\<open>a@b.com\<close> again: the tables are unchanged, but the
  reply is the "already used" notice and no invite is delivered again, where the claim
  has no error and the invite.
\<close>

theorem reclaim_same_identity:
  "handle_email_or_order ex_db ex_msg = (ex_claimed, Invite ''https://t.me/+abc'' ''Marathon'') \<and>
   handle_email_or_order ex_claimed ex_msg = (ex_claimed, AlreadyUsed)"
  by (simp add: handle_email_or_order_def ex_defs str_defs query_defs update_payment_def
          update_user_def next_id_def Let_def)

text \<open>
  With a second unused paid match the second submission is a further claim: the buyer
  of the scenario, holding two paid orders under one email, is moved from order
  \<^verbatim>\<open>A1\<close> to order \<^verbatim>\<open>A2\<close>, and both payments end up used.
\<close>

lemma reclaim_with_second_match:
  "users (fst (handle_email_or_order (ex_claimed\<lparr>payments := [ex_payment\<lparr>used := True\<rparr>, ex_payment2]\<rparr>) ex_msg)) =
     [ex_user\<lparr>payment_id := Some 2\<rparr>] \<and>
   map used (payments (fst (handle_email_or_order
      (ex_claimed\<lparr>payments := [ex_payment\<lparr>used := True\<rparr>, ex_payment2]\<rparr>) ex_msg))) = [True, True]"
  by (simp add: handle_email_or_order_def ex_defs str_defs query_defs update_payment_def
          update_user_def next_id_def Let_def)

subsection \<open>Join requests\<close>

text \<open>
  Claim C9. With no row in \<^verbatim>\<open>current_group\<close>, a join request of an identity bound to a
  paid payment is not ignored: a \<^verbatim>\<open>granted\<close> audit row naming the event's chat is
  appended, the payment is marked used, and the request is approved, whatever chat the
  event names. No group row is created or changed.
\<close>

theorem join_without_group_record:
  assumes "groups s = []"
      and "find (\<lambda>u. telegram_id u = str_int (ev_user_id ev)) (users s) = Some u"
      and "payment_id u = Some k" and "k \<noteq> 0"
      and "find (\<lambda>p. pay_id p = k) (payments s) = Some payment"
      and "status payment = ''paid''"
  shows "approve_join_request utcnow approve_ok s ev =
           (s\<lparr>access_logs := access_logs s @
                 [\<lparr>log_id = next_id (map log_id (access_logs s)),
                   log_telegram_id = str_int (ev_user_id ev),
                   log_email = email payment,
                   log_order_id = order_id payment,
                   log_group_name = str_title (ev_chat_title ev),
                   log_group_id = str_int (ev_chat_id ev),
                   log_action = ''granted'',
                   log_timestamp = utcnow,
                   log_comment = ''Auto-approved join request''\<rparr>],
              payments := update_payment k (\<lambda>p. p\<lparr>used := True\<rparr>) (payments s)\<rparr>,
            if approve_ok then Approved else ApproveRaised) \<and>
         payment\<lparr>used := True\<rparr> \<in> set (update_payment k (\<lambda>p. p\<lparr>used := True\<rparr>) (payments s))"
proof -
  from assms(5) have m: "payment \<in> set (payments s)" and k: "pay_id payment = k"
    using find_Some_member [of "\<lambda>p. pay_id p = k" "payments s" payment] by auto
  have "payment\<lparr>used := True\<rparr> \<in> set (update_payment (pay_id payment) (\<lambda>p. p\<lparr>used := True\<rparr>) (payments s))"
    by (rule update_payment_member [OF m])
  then show ?thesis using assms k
    by (simp add: approve_join_request_def grant_def latest_group_def)
qed

theorem join_without_group_record_witness:
  "groups ex_nogroup = [] \<and>
   find (\<lambda>u. telegram_id u = str_int (ev_user_id ex_event)) (users ex_nogroup) = Some ex_user \<and>
   payment_id ex_user = Some 1 \<and> (1::nat) \<noteq> 0 \<and>
   find (\<lambda>p. pay_id p = 1) (payments ex_nogroup) = Some (ex_payment\<lparr>used := True\<rparr>) \<and>
   status (ex_payment\<lparr>used := True\<rparr>) = ''paid'' \<and>
   snd (approve_join_request 5 True ex_nogroup ex_event) = Approved \<and>
   map log_action (access_logs (fst (approve_join_request 5 True ex_nogroup ex_event))) = [''granted''] \<and>
   map log_group_id (access_logs (fst (approve_join_request 5 True ex_nogroup ex_event))) = [''-1001''] \<and>
   map used (payments (fst (approve_join_request 5 True ex_nogroup ex_event))) = [True]"
  using join_without_group_record [of ex_nogroup ex_event ex_user 1 "ex_payment\<lparr>used := True\<rparr>" 5 True]
  by (simp add: ex_nogroup_def ex_event_def ex_defs str_defs approve_join_request_def grant_def
        latest_group_def update_payment_def next_id_def)

subsection \<open>Join request with a failing approval\<close>

text \<open>
  The tables a join request commits do not depend on whether the approval completes.
\<close>

lemma join_commit_independent_of_approve:
  "fst (approve_join_request utcnow True s ev) = fst (approve_join_request utcnow False s ev)"
  by (simp add: approve_join_request_def grant_def split: option.splits)

text \<open>
  Claim C2 at the join-request path. The buyer of the scenario asks to join and
  \<^verbatim>\<open>event.approve()\<close> raises: the \<^verbatim>\<open>granted\<close> audit row and the adopted chat id are
  committed all the same, because \<^verbatim>\<open>db.commit()\<close> runs before the call.
\<close>

theorem join_commit_precedes_approve:
  "approve_join_request 5 False ex_claimed ex_event = (ex_joined, ApproveRaised) \<and>
   access_logs ex_claimed = [] \<and>
   map log_action (access_logs ex_joined) = [''granted'']"
  by (simp add: approve_join_request_def grant_def ex_defs str_defs query_defs update_payment_def
        update_group_def next_id_def str_title_def)

subsection \<open>Revoke and restore under a failing transport call\<close>

text \<open>
  Claim C4. When the membership-transport call of a revoke (\<^verbatim>\<open>ban_chat_member\<close>) or of a
  restore (\<^verbatim>\<open>unban_chat_member\<close>) fails, the handler returns the tables it was given:
  no audit row is appended, no payment and no user row changes, and the reply is not
  the success message.
\<close>

theorem revoke_restore_all_or_nothing:
  "(admin_remove_user admin_ids utcnow False s m = (s', r) \<longrightarrow> s' = s \<and> r \<noteq> Removed) \<and>
   (admin_unban_user admin_ids utcnow False s m = (s', r) \<longrightarrow> s' = s \<and> r \<noteq> Unbanned)"
  by (auto simp add: admin_remove_user_def admin_unban_user_def Let_def
           split: option.splits if_splits)

text \<open>
  At the example, every validation passes, so the failing call is the only reason for
  the refusal; the same revoke with a call that succeeds appends the \<^verbatim>\<open>revoked\<close> row.
\<close>

theorem revoke_restore_all_or_nothing_witness:
  "admin_remove_user [999] 7 False ex_joined ex_admin_msg = (ex_joined, RemoveFailed) \<and>
   admin_unban_user [999] 7 False ex_joined ex_admin_msg = (ex_joined, UnbanFailed) \<and>
   map log_action (access_logs (fst (admin_remove_user [999] 7 True ex_joined ex_admin_msg))) =
     [''granted'', ''revoked'']"
  using revoke_restore_all_or_nothing [of "[999]" 7 ex_joined ex_admin_msg ex_joined RemoveFailed]
  by (simp add: admin_remove_user_def admin_unban_user_def admin_log_def is_admin_def Let_def
        ex_defs str_defs query_defs)

subsection \<open>Matching resolver\<close>

text \<open>
  Claim C5, as the code has it. In the self-service mode a lookup string with an \<^verbatim>\<open>@\<close>
  matches a payment exactly when the payment's email equals the string, for the primary
  query and for the "already used" probe alike. The administrative mode has no branch
  on \<^verbatim>\<open>@\<close>: whatever the string, it matches by email equality, or by order-id equality,
  or by the phone criteria built from the digits of the string.
\<close>

theorem strict_email_matching:
  "(CHR ''@'' \<in> set t \<longrightarrow>
      (or_filters (claim_filters t) p \<longleftrightarrow> email p = Some t) \<and>
      (\<forall>r. claim_query ps t = Some r \<longrightarrow> email r = Some t) \<and>
      (\<forall>r. used_query ps t = Some r \<longrightarrow> email r = Some t)) \<and>
   (or_filters (admin_filters t) p \<longleftrightarrow>
      email p = Some t \<or> order_id p = t \<or>
      (filter isdigit t \<noteq> [] \<and> phone p = Some (filter isdigit t)) \<or>
      (10 \<le> length (filter isdigit t) \<and>
       (\<exists>ph. phone p = Some ph \<and>
             endswith ph (drop (length (filter isdigit t) - 10) (filter isdigit t)))))"
proof (intro conjI impI allI)
  assume at: "CHR ''@'' \<in> set t"
  then show "or_filters (claim_filters t) p \<longleftrightarrow> email p = Some t"
    by (simp add: claim_filters_def or_filters_def)
  fix r
  { assume "claim_query ps t = Some r"
    then have "r \<in> set (filter (\<lambda>p. status p = ''paid'' \<and> used p = False \<and> or_filters (claim_filters t) p) ps)"
      unfolding claim_query_def by (rule first_by_member)
    with at show "email r = Some t" by (simp add: claim_filters_def or_filters_def) }
  { assume "used_query ps t = Some r"
    then have "r \<in> set (filter (\<lambda>p. status p = ''paid'' \<and> or_filters (claim_filters t) p) ps)"
      unfolding used_query_def by (rule first_by_member)
    with at show "email r = Some t" by (simp add: claim_filters_def or_filters_def) }
next
  show "or_filters (admin_filters t) p \<longleftrightarrow>
      email p = Some t \<or> order_id p = t \<or>
      (filter isdigit t \<noteq> [] \<and> phone p = Some (filter isdigit t)) \<or>
      (10 \<le> length (filter isdigit t) \<and>
       (\<exists>ph. phone p = Some ph \<and>
             endswith ph (drop (length (filter isdigit t) - 10) (filter isdigit t))))"
    by (auto simp: admin_filters_def phone_filters_def phone_variants_def normalize_phone_def
          or_filters_def truthy_def Let_def split: option.splits)
qed

theorem strict_email_matching_witness:
  "CHR ''@'' \<in> set ''a@b.com'' \<and>
   claim_query [ex_payment, ex_payment2] ''a@b.com'' = Some ex_payment \<and>
   email ex_payment = Some ''a@b.com'' \<and>
   claim_query [ex_payment] ''+7 916 123-45-67 @ann'' = None \<and>
   claim_query [ex_payment] ''+7 916 123-45-67'' = Some ex_payment"
proof -
  have a: "CHR ''@'' \<in> set ''a@b.com''" by simp
  have b: "claim_query [ex_payment, ex_payment2] ''a@b.com'' = Some ex_payment"
    by (simp add: query_defs ex_defs str_defs)
  have c: "email ex_payment = Some ''a@b.com''"
    using strict_email_matching [of "''a@b.com''" ex_payment "[ex_payment, ex_payment2]"] a b
    by blast
  have d: "claim_query [ex_payment] ''+7 916 123-45-67 @ann'' = None"
    by (simp add: query_defs ex_defs str_defs)
  have e: "claim_query [ex_payment] ''+7 916 123-45-67'' = Some ex_payment"
    by (simp add: query_defs ex_defs str_defs)
  from a b c d e show ?thesis by blast
qed

text \<open>
  The claim as first stated fails in the administrative mode: a string with an \<^verbatim>\<open>@\<close>
  finds, through its digits, a payment whose email is another one.
\<close>

theorem admin_email_counterexample:
  "CHR ''@'' \<in> set ''+7 916 123-45-67 @ann'' \<and>
   admin_query [ex_payment] ''+7 916 123-45-67 @ann'' = Some ex_payment \<and>
   send_payment_info ex_db ''+7 916 123-45-67 @ann'' = (ex_db, PaymentInfo ex_payment None []) \<and>
   email ex_payment \<noteq> Some ''+7 916 123-45-67 @ann''"
  by (simp add: send_payment_info_def query_defs ex_defs str_defs)

text \<open>
  Claim C6, as the code has it. The self-service queries return a matching row with the
  latest \<^verbatim>\<open>created_at\<close>, and among those the highest key. The administrative lookup
  orders by the key alone: it returns the matching row with the highest key, whatever
  the creation times. Each query returns a row whenever a row matches.
\<close>

theorem resolver_tie_break:
  "(claim_query ps t = Some p \<longrightarrow>
      p \<in> set ps \<and> status p = ''paid'' \<and> \<not> used p \<and> or_filters (claim_filters t) p \<and>
      (\<forall>q \<in> set ps. status q = ''paid'' \<and> \<not> used q \<and> or_filters (claim_filters t) q \<longrightarrow>
         created_at q < created_at p \<or> (created_at q = created_at p \<and> pay_id q \<le> pay_id p))) \<and>
   (used_query ps t = Some p \<longrightarrow>
      p \<in> set ps \<and> status p = ''paid'' \<and> or_filters (claim_filters t) p \<and>
      (\<forall>q \<in> set ps. status q = ''paid'' \<and> or_filters (claim_filters t) q \<longrightarrow>
         created_at q < created_at p \<or> (created_at q = created_at p \<and> pay_id q \<le> pay_id p))) \<and>
   (admin_query ps t = Some p \<longrightarrow>
      p \<in> set ps \<and> or_filters (admin_filters t) p \<and>
      (\<forall>q \<in> set ps. or_filters (admin_filters t) q \<longrightarrow> pay_id q \<le> pay_id p)) \<and>
   (claim_query ps t = None \<longleftrightarrow>
      \<not> (\<exists>q \<in> set ps. status q = ''paid'' \<and> \<not> used q \<and> or_filters (claim_filters t) q)) \<and>
   (admin_query ps t = None \<longleftrightarrow> \<not> (\<exists>q \<in> set ps. or_filters (admin_filters t) q))"
proof (intro conjI impI)
  assume h: "claim_query ps t = Some p"
  let ?C = "\<lambda>p. status p = ''paid'' \<and> used p = False \<and> or_filters (claim_filters t) p"
  from h have f: "first_by created_desc_id_desc (filter ?C ps) = Some p"
    by (simp add: claim_query_def)
  from first_by_member [OF f] show "p \<in> set ps" "status p = ''paid''" "\<not> used p"
    "or_filters (claim_filters t) p" by auto
  show "\<forall>q \<in> set ps. status q = ''paid'' \<and> \<not> used q \<and> or_filters (claim_filters t) q \<longrightarrow>
         created_at q < created_at p \<or> (created_at q = created_at p \<and> pay_id q \<le> pay_id p)"
    using created_desc_id_desc_least [OF f] by auto
next
  assume h: "used_query ps t = Some p"
  let ?C = "\<lambda>p. status p = ''paid'' \<and> or_filters (claim_filters t) p"
  from h have f: "first_by created_desc_id_desc (filter ?C ps) = Some p"
    by (simp add: used_query_def)
  from first_by_member [OF f] show "p \<in> set ps" "status p = ''paid''"
    "or_filters (claim_filters t) p" by auto
  show "\<forall>q \<in> set ps. status q = ''paid'' \<and> or_filters (claim_filters t) q \<longrightarrow>
         created_at q < created_at p \<or> (created_at q = created_at p \<and> pay_id q \<le> pay_id p)"
    using created_desc_id_desc_least [OF f] by auto
next
  assume h: "admin_query ps t = Some p"
  then have f: "first_by id_desc (filter (or_filters (admin_filters t)) ps) = Some p"
    by (simp add: admin_query_def)
  from first_by_member [OF f] show "p \<in> set ps" "or_filters (admin_filters t) p" by auto
  show "\<forall>q \<in> set ps. or_filters (admin_filters t) q \<longrightarrow> pay_id q \<le> pay_id p"
    using id_desc_least [OF f] by auto
next
  show "claim_query ps t = None \<longleftrightarrow>
      \<not> (\<exists>q \<in> set ps. status q = ''paid'' \<and> \<not> used q \<and> or_filters (claim_filters t) q)"
    by (auto simp: claim_query_def first_by_None filter_empty_conv)
next
  show "admin_query ps t = None \<longleftrightarrow> \<not> (\<exists>q \<in> set ps. or_filters (admin_filters t) q)"
    by (auto simp: admin_query_def first_by_None filter_empty_conv)
qed

theorem resolver_tie_break_witness:
  "claim_query [ex_payment, ex_payment2] ''a@b.com'' = Some ex_payment \<and>
   admin_query [ex_payment, ex_payment2] ''a@b.com'' = Some ex_payment2 \<and>
   created_at ex_payment2 < created_at ex_payment \<and> pay_id ex_payment < pay_id ex_payment2"
  using resolver_tie_break [of "[ex_payment, ex_payment2]" "''a@b.com''" ex_payment]
  by (simp add: query_defs ex_defs str_defs)

text \<open>
  The claim as first stated fails in the administrative mode: of two payments with the
  same email, the lookup returns the one created earlier, because its key is higher.
\<close>

theorem admin_recency_counterexample:
  "admin_query [ex_payment, ex_payment2] ''a@b.com'' = Some ex_payment2 \<and>
   send_payment_info (ex_db\<lparr>payments := [ex_payment, ex_payment2]\<rparr>) ''a@b.com'' =
     (ex_db\<lparr>payments := [ex_payment, ex_payment2]\<rparr>, PaymentInfo ex_payment2 None []) \<and>
   email ex_payment = Some ''a@b.com'' \<and> email ex_payment2 = Some ''a@b.com'' \<and>
   created_at ex_payment2 < created_at ex_payment"
  by (simp add: send_payment_info_def query_defs ex_defs str_defs)

subsection \<open>Webhook ingestion\<close>

text \<open>
  Claim C7. A webhook that is ingested (authorised, with an order id and an email or a
  phone, answered \<^verbatim>\<open>200\<close>) upserts by \<^verbatim>\<open>order_id\<close>. When no row has the order id, one
  row is appended under a fresh key, with the incoming fields and \<^verbatim>\<open>used = False\<close>.
  Otherwise the row found is updated in place and every other row is left as it was:
  email, phone and product name are overwritten only by a non-empty incoming value,
  status and \<^verbatim>\<open>created_at\<close> always. Order ids that were unique stay unique, and no
  other table changes.
\<close>

theorem webhook_upsert:
  assumes acc: "handle_prodamus tok strp now s req = (s', Ok200)"
      and pk: "distinct (map pay_id (payments s))"
  shows "\<exists>oid. in_order_id (body req) = Some oid \<and> oid \<noteq> [] \<and>
           (find (\<lambda>q. order_id q = oid) (payments s) = None \<longrightarrow>
              (\<exists>k. k \<notin> set (map pay_id (payments s)) \<and>
                   payments s' = payments s @
                     [\<lparr>pay_id = k, order_id = oid, email = in_email (body req),
                       phone = in_phone (body req), status = in_status (body req),
                       product_name = in_product_name (body req),
                       created_at = in_created_at strp now (body req), used = False\<rparr>])) \<and>
           (\<forall>p. find (\<lambda>q. order_id q = oid) (payments s) = Some p \<longrightarrow>
              payments s' =
                map (\<lambda>q. if q = p
                          then p\<lparr>email := (if truthy (in_email (body req)) then in_email (body req) else email p),
                                 phone := (if truthy (in_phone (body req)) then in_phone (body req) else phone p),
                                 status := in_status (body req),
                                 product_name := (if truthy (in_product_name (body req))
                                                  then in_product_name (body req) else product_name p),
                                 created_at := in_created_at strp now (body req)\<rparr>
                          else q) (payments s)) \<and>
           (distinct (map order_id (payments s)) \<longrightarrow> distinct (map order_id (payments s'))) \<and>
           distinct (map pay_id (payments s')) \<and>
           users s' = users s \<and> access_logs s' = access_logs s \<and> groups s' = groups s"
proof -
  let ?pl = "body req"
  from acc have ok: "truthy (in_order_id ?pl)"
    by (auto simp: handle_prodamus_def Let_def split: if_splits)
  then obtain oid where oid: "in_order_id ?pl = Some oid" and ne: "oid \<noteq> []"
    by (auto simp: truthy_def split: option.splits)
  let ?f = "overlay (in_email ?pl) (in_phone ?pl) (in_status ?pl) (in_product_name ?pl)
              (in_created_at strp now ?pl)"
  show ?thesis
  proof (cases "find (\<lambda>q. order_id q = oid) (payments s)")
    case None
    then have absent: "oid \<notin> set (map order_id (payments s))"
      by (auto simp: find_None_iff)
    from acc oid None have s': "s' = s\<lparr>payments := payments s @
                     [\<lparr>pay_id = next_id (map pay_id (payments s)), order_id = oid, email = in_email ?pl,
                       phone = in_phone ?pl, status = in_status ?pl,
                       product_name = in_product_name ?pl,
                       created_at = in_created_at strp now ?pl, used = False\<rparr>]\<rparr>"
      by (auto simp: handle_prodamus_def Let_def split: if_splits)
    have fresh: "next_id (map pay_id (payments s)) \<notin> set (map pay_id (payments s))"
      by (rule next_id_fresh)
    show ?thesis
      apply (rule exI [of _ oid])
      using oid ne None absent fresh pk s' by auto
  next
    case (Some p)
    then have m: "p \<in> set (payments s)"
      using find_Some_member [of "\<lambda>q. order_id q = oid" "payments s" p] by auto
    from acc oid Some have s': "s' = s\<lparr>payments := update_payment (pay_id p) ?f (payments s)\<rparr>"
      by (auto simp: handle_prodamus_def Let_def split: if_splits)
    have keep: "map order_id (payments s') = map order_id (payments s)"
               "map pay_id (payments s') = map pay_id (payments s)"
      by (auto simp: s' update_payment_def overlay_def)
    have upd: "payments s' = map (\<lambda>q. if q = p then ?f p else q) (payments s)"
      using update_payment_distinct [OF pk m, of ?f] by (simp add: s')
    have frame: "users s' = users s \<and> access_logs s' = access_logs s \<and> groups s' = groups s"
      by (simp add: s')
    have d1: "distinct (map order_id (payments s)) \<longrightarrow> distinct (map order_id (payments s'))"
      by (simp only: keep) simp
    have d2: "distinct (map pay_id (payments s'))"
      using pk by (simp only: keep)
    have row: "\<forall>p'. find (\<lambda>q. order_id q = oid) (payments s) = Some p' \<longrightarrow>
              payments s' =
                map (\<lambda>q. if q = p'
                          then p'\<lparr>email := (if truthy (in_email (body req)) then in_email (body req) else email p'),
                                 phone := (if truthy (in_phone (body req)) then in_phone (body req) else phone p'),
                                 status := in_status (body req),
                                 product_name := (if truthy (in_product_name (body req))
                                                  then in_product_name (body req) else product_name p'),
                                 created_at := in_created_at strp now (body req)\<rparr>
                          else q) (payments s)"
      using upd Some by (simp add: overlay_def)
    show ?thesis
      apply (rule exI [of _ oid])
      using oid ne Some frame d1 d2 row by simp
  qed
qed

theorem webhook_upsert_witness:
  "handle_prodamus [] ex_strptime 0 ex_claimed ex_repeat_req =
     (ex_claimed\<lparr>payments := [ex_payment\<lparr>email := Some ''new@b.com'', created_at := 1736510400, used := True\<rparr>]\<rparr>, Ok200) \<and>
   distinct (map pay_id (payments ex_claimed)) \<and>
   map order_id (payments (fst (handle_prodamus [] ex_strptime 0 ex_claimed ex_new_req))) = [''A1'', ''B2'']"
  using webhook_upsert [of "[]" ex_strptime 0 ex_claimed ex_repeat_req
     "ex_claimed\<lparr>payments := [ex_payment\<lparr>email := Some ''new@b.com'', created_at := 1736510400, used := True\<rparr>]\<rparr>"]
  by (simp add: webhook_defs ex_repeat_req_def ex_new_req_def ex_defs str_defs ex_strptime_def Let_def)

text \<open>
  Claim C10. A webhook whose order id is that of an existing row leaves the key, the
  order id and the \<^verbatim>\<open>used\<close> flag of every row as they were; the table keeps its rows.
\<close>

theorem webhook_keeps_consumption:
  assumes "p \<in> set (payments s)" and "in_order_id (body req) = Some (order_id p)"
  shows "map pay_id (payments (fst (handle_prodamus tok strp now s req))) = map pay_id (payments s) \<and>
         map order_id (payments (fst (handle_prodamus tok strp now s req))) = map order_id (payments s) \<and>
         map used (payments (fst (handle_prodamus tok strp now s req))) = map used (payments s)"
proof -
  from assms have "find (\<lambda>q. order_id q = order_id p) (payments s) \<noteq> None"
    by (auto simp: find_None_iff)
  then obtain p0 where "find (\<lambda>q. order_id q = order_id p) (payments s) = Some p0" by auto
  then show ?thesis using assms(2)
    by (auto simp: handle_prodamus_def Let_def update_payment_def overlay_def)
qed

theorem webhook_keeps_consumption_witness:
  "ex_payment\<lparr>used := True\<rparr> \<in> set (payments ex_claimed) \<and>
   in_order_id (body ex_repeat_req) = Some (order_id (ex_payment\<lparr>used := True\<rparr>)) \<and>
   snd (handle_prodamus [] ex_strptime 0 ex_claimed ex_repeat_req) = Ok200 \<and>
   map pay_id (payments (fst (handle_prodamus [] ex_strptime 0 ex_claimed ex_repeat_req))) = [1] \<and>
   map order_id (payments (fst (handle_prodamus [] ex_strptime 0 ex_claimed ex_repeat_req))) = [''A1''] \<and>
   map used (payments (fst (handle_prodamus [] ex_strptime 0 ex_claimed ex_repeat_req))) = [True]"
  using webhook_keeps_consumption [of "ex_payment\<lparr>used := True\<rparr>" ex_claimed ex_repeat_req "[]" ex_strptime 0]
  by (simp add: webhook_defs ex_repeat_req_def ex_defs str_defs ex_strptime_def Let_def)

text \<open>
  Claim C8, as the code has it. The status is trimmed and lower-cased before it is looked
  up in the vocabulary; a status outside the vocabulary is stored in that trimmed,
  lower-cased form, and a missing or empty status is stored as \<^verbatim>\<open>paid\<close>. The row of an
  ingested webhook carries the status so normalised.
\<close>

theorem status_normalization:
  "normalize_status v =
     (if \<not> truthy v then ''paid''
      else if lower (strip (the v)) \<in> {''success'', ''succeeded'', ''paid'', ''completed''} then ''paid''
      else if lower (strip (the v)) \<in> {''cancelled'', ''canceled''} then ''cancelled''
      else lower (strip (the v))) \<and>
   (handle_prodamus tok strp now s req = (s', Ok200) \<longrightarrow>
      (\<exists>p \<in> set (payments s').
         Some (order_id p) = in_order_id (body req) \<and>
         status p = normalize_status (get_first (body req) [''status'', ''payment_status'', ''paymentStatus''])))"
proof
  show "normalize_status v =
     (if \<not> truthy v then ''paid''
      else if lower (strip (the v)) \<in> {''success'', ''succeeded'', ''paid'', ''completed''} then ''paid''
      else if lower (strip (the v)) \<in> {''cancelled'', ''canceled''} then ''cancelled''
      else lower (strip (the v)))"
    by (simp add: normalize_status_def status_mapping_def Let_def)
next
  show "handle_prodamus tok strp now s req = (s', Ok200) \<longrightarrow>
      (\<exists>p \<in> set (payments s').
         Some (order_id p) = in_order_id (body req) \<and>
         status p = normalize_status (get_first (body req) [''status'', ''payment_status'', ''paymentStatus'']))"
  proof
    assume h: "handle_prodamus tok strp now s req = (s', Ok200)"
    let ?pl = "body req"
    from h have ok: "truthy (in_order_id ?pl)"
      by (auto simp: handle_prodamus_def Let_def split: if_splits)
    then obtain oid where oid: "in_order_id ?pl = Some oid"
      by (auto simp: truthy_def split: option.splits)
    show "\<exists>p \<in> set (payments s').
         Some (order_id p) = in_order_id (body req) \<and>
         status p = normalize_status (get_first (body req) [''status'', ''payment_status'', ''paymentStatus''])"
    proof (cases "find (\<lambda>p. order_id p = oid) (payments s)")
      case None
      with h oid show ?thesis
        by (auto simp: handle_prodamus_def Let_def in_status_def split: if_splits)
    next
      case (Some p0)
      then have m: "p0 \<in> set (payments s)" and o: "order_id p0 = oid"
        using find_Some_member [of "\<lambda>p. order_id p = oid" "payments s" p0] by auto
      let ?f = "overlay (in_email ?pl) (in_phone ?pl) (in_status ?pl) (in_product_name ?pl)
                  (in_created_at strp now ?pl)"
      from h oid Some have "payments s' = update_payment (pay_id p0) ?f (payments s)"
        by (auto simp: handle_prodamus_def Let_def split: if_splits)
      with update_payment_member [OF m, of ?f] have "?f p0 \<in> set (payments s')" by simp
      moreover have "order_id (?f p0) = oid" "status (?f p0) = in_status ?pl"
        using o by (simp_all add: overlay_def)
      ultimately show ?thesis using oid by (auto simp: in_status_def intro!: bexI [of _ "?f p0"])
    qed
  qed
qed

theorem status_normalization_witness:
  "handle_prodamus [] ex_strptime 0 empty_db ex_refund_req =
     (fst (handle_prodamus [] ex_strptime 0 empty_db ex_refund_req), Ok200) \<and>
   normalize_status (Some '' SUCCESS '') = ''paid'' \<and>
   normalize_status (Some ''Canceled'') = ''cancelled'' \<and>
   normalize_status (Some ''on hold'') = ''on hold'' \<and>
   normalize_status None = ''paid'' \<and>
   list_ex (\<lambda>p. Some (order_id p) = in_order_id (body ex_refund_req) \<and> status p = ''refunded'')
     (payments (fst (handle_prodamus [] ex_strptime 0 empty_db ex_refund_req)))"
  using status_normalization [of "Some ''Refunded''" "[]" ex_strptime 0 empty_db ex_refund_req
          "fst (handle_prodamus [] ex_strptime 0 empty_db ex_refund_req)"]
  by (simp add: webhook_defs ex_refund_req_def empty_db_def str_defs Let_def)

text \<open>
  The claim as first stated (a status outside the vocabulary is kept verbatim) fails:
  the incoming status \<^verbatim>\<open>Refunded\<close> is stored as \<^verbatim>\<open>refunded\<close>.
\<close>

theorem status_verbatim_counterexample:
  "get_first (body ex_refund_req) [''status'', ''payment_status'', ''paymentStatus''] = Some ''Refunded'' \<and>
   map status (payments (fst (handle_prodamus [] ex_strptime 0 empty_db ex_refund_req))) = [''refunded'']"
  by (simp add: webhook_defs ex_refund_req_def empty_db_def str_defs Let_def)

end
